theory Spec2Isabelle
  imports Main "HOL-Library.Char_ord"
begin

section \<open>Exceptions\<close>

text \<open>
  Every exception the two scripts can raise is a value. \<open>InvalidRange\<close> is the
  \<^verbatim>\<open>ValueError\<close> of \<^verbatim>\<open>check_valid_dates\<close> (tagged with the check that raised it),
  \<open>NoObjectsToConcatenate\<close> is the \<^verbatim>\<open>ValueError\<close> that \<^verbatim>\<open>pd.concat\<close> raises on an empty
  list, \<open>TokenNotFound\<close> is the bare \<^verbatim>\<open>Exception\<close> of \<^verbatim>\<open>download_from_eoddata\<close>, and
  \<open>ScrapeFailed let n\<close> is the \<^verbatim>\<open>Exception\<close> whose message is
  \<^verbatim>\<open>'Failed scraping letter {let} after {n} tries'\<close>. \<open>External\<close> is an exception raised by
  an injected collaborator (browser, page reader) that derives from \<^verbatim>\<open>Exception\<close>;
  \<open>NonException\<close> is one that derives from \<^verbatim>\<open>BaseException\<close> only (an interrupt), which
  \<^verbatim>\<open>except Exception\<close> does not catch.
\<close>

datatype range_check = TooEarly | FutureStart | Inverted

datatype py_error =
    IndexError
  | KeyError
  | AttributeError
  | OverflowError
  | UnboundLocalError
  | NoObjectsToConcatenate
  | InvalidRange range_check
  | TokenNotFound
  | ScrapeFailed char int
  | External string
  | NonException string

section \<open>interactive_stock_vals.py\<close>

subsection \<open>Tables\<close>

text \<open>
  A row of a quote table has the ticker in its \<^verbatim>\<open>Code\<close> column; the other columns are kept
  as an association list. A \<^verbatim>\<open>DataFrame\<close> is the list of its rows in order, each with its
  index label. Every table read has the column \<^verbatim>\<open>Code\<close>, as the pages of the site have, an
  empty table too.
\<close>

record eod_row =
  Code :: string
  Columns :: "(string \<times> string) list"

type_synonym dataframe = "(int \<times> eod_row) list"

definition pd_concat :: "dataframe list \<Rightarrow> py_error + dataframe" where
  "pd_concat dfs = (if dfs = [] then Inl NoObjectsToConcatenate else Inr (concat dfs))"

definition isin_Code :: "string list \<Rightarrow> dataframe \<Rightarrow> dataframe" where
  "isin_Code tickers df = filter (\<lambda>(i, r). Code r \<in> set tickers) df"

definition reset_index :: "dataframe \<Rightarrow> dataframe" where
  "reset_index df = zip (map int [0..<length df]) (map snd df)"

subsection \<open>get_letters_list\<close>

definition letters_all :: "char list" where
  "letters_all = ''ABCDEFGHIJKLMNOPQRSTUVWXYZ''"

text \<open>The loop of lines 47-48: \<^verbatim>\<open>curr_ticker[0]\<close> raises on the empty string.\<close>

fun letters_set_loop :: "string list \<Rightarrow> char set \<Rightarrow> py_error + char set" where
  "letters_set_loop [] acc = Inr acc"
| "letters_set_loop (curr_ticker # rest) acc =
     (case curr_ticker of
        [] \<Rightarrow> Inl IndexError
      | c # _ \<Rightarrow> letters_set_loop rest (insert c acc))"

definition get_letters_list :: "string list option \<Rightarrow> py_error + char list" where
  "get_letters_list tickers =
     (case tickers of
        None \<Rightarrow> Inr letters_all
      | Some ts \<Rightarrow>
          (case letters_set_loop ts {} of
             Inl e \<Rightarrow> Inl e
           | Inr letters_set \<Rightarrow> Inr (sorted_list_of_set letters_set)))"

subsection \<open>get_vals_from_eoddata\<close>

text \<open>
  \<^verbatim>\<open>read_eod_fn\<close> is injected and reads a remote page: it takes the letter and the state of
  the outside world and either returns a table or raises. The model keeps, beside the
  list \<^verbatim>\<open>stock_vals\<close>, the letters \<^verbatim>\<open>read_eod_fn\<close> was called with, in call order.
\<close>

type_synonym 'w read_fn = "char \<Rightarrow> 'w \<Rightarrow> (py_error + dataframe) \<times> 'w"

record 'w scrape_state =
  stock_vals :: "dataframe list"
  calls :: "char list"
  world :: 'w

text \<open>\<^verbatim>\<open>except Exception\<close> catches everything but the exceptions outside \<^verbatim>\<open>Exception\<close>.\<close>

fun is_Exception :: "py_error \<Rightarrow> bool" where
  "is_Exception (NonException _) = False"
| "is_Exception _ = True"

datatype 'w loop_exit =
    Broke "'w scrape_state"
  | Exhausted "'w scrape_state"
  | Escaped py_error "'w scrape_state"

text \<open>
  The inner loop \<^verbatim>\<open>for i in range(n_tries)\<close> of lines 76-87, by the number of iterations
  left: \<open>Broke\<close> is the \<^verbatim>\<open>break\<close> after a successful read, \<open>Exhausted\<close> the \<^verbatim>\<open>else\<close>
  branch of the loop. The loop variable \<^verbatim>\<open>let\<close> is \<open>letter\<close> here.
\<close>

fun try_letter :: "'w read_fn \<Rightarrow> char \<Rightarrow> nat \<Rightarrow> 'w scrape_state \<Rightarrow> 'w loop_exit" where
  "try_letter read_eod_fn letter 0 st = Exhausted st"
| "try_letter read_eod_fn letter (Suc k) st =
     (case read_eod_fn letter (world st) of
        (Inr curr_table, w) \<Rightarrow>
          Broke (st\<lparr>stock_vals := stock_vals st @ [curr_table],
                    calls := calls st @ [letter], world := w\<rparr>)
      | (Inl e, w) \<Rightarrow>
          (if is_Exception e
           then try_letter read_eod_fn letter k (st\<lparr>calls := calls st @ [letter], world := w\<rparr>)
           else Escaped e (st\<lparr>calls := calls st @ [letter], world := w\<rparr>)))"

text \<open>The outer loop \<^verbatim>\<open>for let in letters\<close>; \<^verbatim>\<open>range(n_tries)\<close> is empty for \<open>n_tries \<le> 0\<close>.\<close>

fun scrape_letters ::
  "'w read_fn \<Rightarrow> int \<Rightarrow> char list \<Rightarrow> 'w scrape_state \<Rightarrow> py_error \<times> 'w scrape_state + 'w scrape_state"
where
  "scrape_letters read_eod_fn n_tries [] st = Inr st"
| "scrape_letters read_eod_fn n_tries (letter # rest) st =
     (case try_letter read_eod_fn letter (nat n_tries) st of
        Broke st' \<Rightarrow> scrape_letters read_eod_fn n_tries rest st'
      | Exhausted st' \<Rightarrow> Inl (ScrapeFailed letter n_tries, st')
      | Escaped e st' \<Rightarrow> Inl (e, st'))"

text \<open>
  The warning of lines 99-103 carries the requested tickers that are not in the result, in
  the order of the request. \<^verbatim>\<open>pd.Series(None)\<close> is empty, so no ticker is missing when
  \<^verbatim>\<open>tickers\<close> is unset. \<^verbatim>\<open>warnings.warn\<close> is modelled under the default filters, where it
  records the warning and returns.
\<close>

datatype py_warning = StocksNotFound "string list"

definition tickers_not_in :: "string list option \<Rightarrow> dataframe \<Rightarrow> string list" where
  "tickers_not_in tickers combined =
     filter (\<lambda>t. t \<notin> set (map (Code \<circ> snd) combined)) (case tickers of None \<Rightarrow> [] | Some ts \<Rightarrow> ts)"

definition reconcile :: "string list option \<Rightarrow> dataframe \<Rightarrow> py_warning list" where
  "reconcile tickers combined =
     (if tickers_not_in tickers combined \<noteq> []
      then [StocksNotFound (tickers_not_in tickers combined)] else [])"

text \<open>Lines 91-95: concatenate, subset when tickers were given, then renumber.\<close>

definition combine :: "string list option \<Rightarrow> dataframe list \<Rightarrow> py_error + dataframe" where
  "combine tickers vals =
     (case pd_concat vals of
        Inl e \<Rightarrow> Inl e
      | Inr combined \<Rightarrow>
          Inr (reset_index (case tickers of
                             None \<Rightarrow> combined
                           | Some ts \<Rightarrow> isin_Code ts combined)))"

text \<open>
  The result of a call: the returned table with the warnings issued, or the exception;
  the letters \<^verbatim>\<open>read_eod_fn\<close> was called with; the world afterwards.
\<close>

definition get_vals_from_eoddata ::
  "string list option \<Rightarrow> int \<Rightarrow> 'w read_fn \<Rightarrow> 'w
     \<Rightarrow> (py_error + dataframe \<times> py_warning list) \<times> char list \<times> 'w"
where
  "get_vals_from_eoddata tickers n_tries read_eod_fn w =
     (case get_letters_list tickers of
        Inl e \<Rightarrow> (Inl e, [], w)
      | Inr letters \<Rightarrow>
          (case scrape_letters read_eod_fn n_tries letters
                  \<lparr>stock_vals = [], calls = [], world = w\<rparr> of
             Inl (e, st) \<Rightarrow> (Inl e, calls st, world st)
           | Inr st \<Rightarrow>
               (case combine tickers (stock_vals st) of
                  Inl e \<Rightarrow> (Inl e, calls st, world st)
                | Inr combined \<Rightarrow>
                    (Inr (combined, reconcile tickers combined), calls st, world st))))"

text \<open>The state in which the loop over the letters is left, by either exit.\<close>

definition end_state :: "py_error \<times> 'w scrape_state + 'w scrape_state \<Rightarrow> 'w scrape_state" where
  "end_state r = (case r of Inl (e, st) \<Rightarrow> st | Inr st \<Rightarrow> st)"

text \<open>
  What a reader does on consecutive calls for one letter, told without the loop:
  \<open>world_after\<close> is the world after \<open>i\<close> calls, \<open>raises_Exception\<close> says that a call
  raises an exception that \<^verbatim>\<open>except Exception\<close> catches, \<open>fails_first\<close> that each of the
  first \<open>j\<close> calls does, and \<open>returns_after\<close> that they do and the call after them returns
  the table \<open>t\<close>.
\<close>

definition world_after :: "'w read_fn \<Rightarrow> char \<Rightarrow> nat \<Rightarrow> 'w \<Rightarrow> 'w" where
  "world_after read_eod_fn letter i w = ((\<lambda>v. snd (read_eod_fn letter v)) ^^ i) w"

definition raises_Exception :: "'w read_fn \<Rightarrow> char \<Rightarrow> 'w \<Rightarrow> bool" where
  "raises_Exception read_eod_fn letter w =
     (case fst (read_eod_fn letter w) of Inl e \<Rightarrow> is_Exception e | Inr t \<Rightarrow> False)"

definition fails_first :: "'w read_fn \<Rightarrow> char \<Rightarrow> nat \<Rightarrow> 'w \<Rightarrow> bool" where
  "fails_first read_eod_fn letter j w =
     list_all (\<lambda>i. raises_Exception read_eod_fn letter (world_after read_eod_fn letter i w)) [0..<j]"

definition returns_after :: "'w read_fn \<Rightarrow> char \<Rightarrow> nat \<Rightarrow> 'w \<Rightarrow> dataframe \<Rightarrow> bool" where
  "returns_after read_eod_fn letter j w t =
     (fails_first read_eod_fn letter j w
      \<and> fst (read_eod_fn letter (world_after read_eod_fn letter j w)) = Inr t)"

text \<open>
  The combination as the specification words it, for comparison with \<open>combine\<close>: the
  concatenation is renumbered first and subset afterwards, so that the surviving rows keep
  the labels they had in the whole concatenation.
\<close>

definition combine_as_specified :: "string list option \<Rightarrow> dataframe list \<Rightarrow> dataframe" where
  "combine_as_specified tickers vals =
     (case tickers of
        None \<Rightarrow> reset_index (concat vals)
      | Some ts \<Rightarrow> isin_Code ts (reset_index (concat vals)))"

subsection \<open>Page readers for the examples\<close>

text \<open>
  Stand-ins for \<^verbatim>\<open>read_eod_fn\<close>, used to run the model on concrete requests.
  \<open>read_aapl_everywhere\<close> returns the one-row table of AAPL for every letter;
  \<open>read_aapl_page\<close> returns it for the letter A and an empty table otherwise;
  \<open>read_two_rows\<close> returns the rows of AAPL and AMZN for every letter; \<open>read_flaky\<close>
  counts its calls in the world and raises on every even-numbered call, so that the first
  try of a letter fails and the second succeeds.
\<close>

definition quote_row :: "string \<Rightarrow> eod_row" where
  "quote_row c = \<lparr>Code = c, Columns = []\<rparr>"

definition read_aapl_everywhere :: "unit read_fn" where
  "read_aapl_everywhere letter w = (Inr [(0, quote_row ''AAPL'')], w)"

definition read_aapl_page :: "unit read_fn" where
  "read_aapl_page letter w =
     (if letter = CHR ''A'' then (Inr [(0, quote_row ''AAPL'')], w) else (Inr [], w))"

definition read_two_rows :: "unit read_fn" where
  "read_two_rows letter w = (Inr [(0, quote_row ''AAPL''), (1, quote_row ''AMZN'')], w)"

definition read_flaky :: "nat read_fn" where
  "read_flaky letter w =
     (if even w then (Inl (External ''timeout''), Suc w)
      else if letter = CHR ''A''
        then (Inr [(0, quote_row ''AAPL''), (1, quote_row ''AMZN'')], Suc w)
      else if letter = CHR ''G'' then (Inr [(0, quote_row ''GOOGL'')], Suc w)
      else (Inr [], Suc w))"

section \<open>download_stock_vals.py\<close>

subsection \<open>check_valid_dates\<close>

text \<open>
  The validator only compares dates and subtracts days from one, so a \<^verbatim>\<open>datetime.date\<close> is
  here its proleptic Gregorian ordinal (\<^verbatim>\<open>date.toordinal()\<close>, 1 for 0001-01-01 and 3652059
  for 9999-12-31): Python orders dates as it orders their ordinals. A \<^verbatim>\<open>timedelta\<close> is its
  number of days. Both constructions raise \<^verbatim>\<open>OverflowError\<close> out of range. The clock read of
  line 77 is the parameter \<open>today\<close>.
\<close>

type_synonym date = int

definition valid_date :: "date \<Rightarrow> bool" where
  "valid_date d = (1 \<le> d \<and> d \<le> 3652059)"

definition timedelta :: "int \<Rightarrow> py_error + int" where
  "timedelta days = (if \<bar>days\<bar> > 999999999 then Inl OverflowError else Inr days)"

definition date_sub :: "date \<Rightarrow> int \<Rightarrow> py_error + date" where
  "date_sub d days =
     (if 1 \<le> d - days \<and> d - days \<le> 3652059 then Inr (d - days) else Inl OverflowError)"

definition check_valid_dates :: "date \<Rightarrow> date \<Rightarrow> int \<Rightarrow> date \<Rightarrow> py_error + unit" where
  "check_valid_dates start_date end_date n_days_history today =
     (case timedelta n_days_history of
        Inl e \<Rightarrow> Inl e
      | Inr n_days_timedelta \<Rightarrow>
          (case date_sub today n_days_timedelta of
             Inl e \<Rightarrow> Inl e
           | Inr earliest_day \<Rightarrow>
               if start_date < earliest_day then Inl (InvalidRange TooEarly)
               else if today < start_date then Inl (InvalidRange FutureStart)
               else if end_date < start_date then Inl (InvalidRange Inverted)
               else Inr ()))"

subsection \<open>The token of the download page\<close>

text \<open>
  The page is the list \<^verbatim>\<open>url_list\<close> of its \<^verbatim>\<open>a\<close> tags in document order, each with the value
  of its \<^verbatim>\<open>href\<close> attribute when it has one.

  \<^verbatim>\<open>re.match('/data/filedownload.aspx', s)\<close> matches at the start of \<open>s\<close> only, and the dot of
  the pattern stands for any character but a newline.
\<close>

definition re_match_filedownload :: "string \<Rightarrow> bool" where
  "re_match_filedownload s =
     (take 18 s = ''/data/filedownload''
      \<and> (case drop 18 s of
            [] \<Rightarrow> False
          | c # rest \<Rightarrow> c \<noteq> CHR 0x0A \<and> take 4 rest = ''aspx''))"

text \<open>
  \<^verbatim>\<open>re.search('k=([^&]*)', s)\<close>: the leftmost \<^verbatim>\<open>k=\<close> in \<open>s\<close>, and as group 1 the characters
  after it up to the next \<^verbatim>\<open>&\<close> or the end; \<open>None\<close> when \<open>s\<close> has no \<^verbatim>\<open>k=\<close>.
\<close>

fun re_search_k :: "string \<Rightarrow> string option" where
  "re_search_k [] = None"
| "re_search_k [c] = None"
| "re_search_k (c # d # rest) =
     (if c = CHR ''k'' \<and> d = CHR ''=''
      then Some (takeWhile (\<lambda>x. x \<noteq> CHR ''&'') rest)
      else re_search_k (d # rest))"

text \<open>
  The loop of lines 111-124 returns the value of \<^verbatim>\<open>k\<close> when it is left: the initial
  \<^verbatim>\<open>''\<close> when no link matched. \<^verbatim>\<open>.group(1)\<close> on the \<^verbatim>\<open>None\<close> of a failed search raises
  \<^verbatim>\<open>AttributeError\<close>.
\<close>

fun k_loop :: "string option list \<Rightarrow> py_error + string" where
  "k_loop [] = Inr []"
| "k_loop (None # rest) = k_loop rest"
| "k_loop (Some url_string # rest) =
     (if re_match_filedownload url_string
      then (case re_search_k url_string of
              None \<Rightarrow> Inl AttributeError
            | Some k \<Rightarrow> Inr k)
      else k_loop rest)"

text \<open>Lines 111-126, with the \<^verbatim>\<open>raise Exception\<close> of line 126 as \<open>TokenNotFound\<close>.\<close>

definition extract_k :: "string option list \<Rightarrow> py_error + string" where
  "extract_k url_list =
     (case k_loop url_list of
        Inl e \<Rightarrow> Inl e
      | Inr k \<Rightarrow> if k = [] then Inl TokenNotFound else Inr k)"

text \<open>
  The words of the specification about a link, for comparison with the two regular
  expressions. The path of a target is what precedes its first \<^verbatim>\<open>?\<close>, and a download link
  is a target whose path is the download endpoint. \<open>k_parameter u before v rest\<close> says
  that the query of the download link \<open>u\<close> is \<open>before\<close>, then the parameter \<^verbatim>\<open>k\<close> with the
  value \<open>v\<close>, then \<open>rest\<close>: \<open>before\<close> is empty or ends a parameter, \<open>v\<close> runs to the next
  \<^verbatim>\<open>&\<close> or to the end, and no \<^verbatim>\<open>k=\<close> occurs in \<open>before\<close>, so that this is the first
  parameter of that name and nothing before it looks like it.
\<close>

definition href_path :: "string \<Rightarrow> string" where
  "href_path u = takeWhile (\<lambda>c. c \<noteq> CHR ''?'') u"

definition is_download_link :: "string \<Rightarrow> bool" where
  "is_download_link u = (href_path u = ''/data/filedownload.aspx'')"

definition k_eq_free :: "string \<Rightarrow> bool" where
  "k_eq_free s = list_all (\<lambda>(c, d). \<not> (c = CHR ''k'' \<and> d = CHR ''='')) (zip s (tl s))"

definition k_parameter :: "string \<Rightarrow> string \<Rightarrow> string \<Rightarrow> string \<Rightarrow> bool" where
  "k_parameter u before v rest =
     (u = ''/data/filedownload.aspx?'' @ before @ ''k='' @ v @ rest
      \<and> (before = [] \<or> last before = CHR ''&'')
      \<and> k_eq_free before
      \<and> CHR ''&'' \<notin> set v
      \<and> (rest = [] \<or> hd rest = CHR ''&''))"

subsection \<open>The download request\<close>

text \<open>
  \<^verbatim>\<open>str.format\<close> on a template whose replacement fields are plain names, as those of
  \<^verbatim>\<open>url_template\<close> are: the second argument is the name of the field being read, if any.
\<close>

fun py_format :: "(string \<times> string) list \<Rightarrow> string option \<Rightarrow> string \<Rightarrow> py_error + string" where
  "py_format kwargs None [] = Inr []"
| "py_format kwargs (Some name) [] = Inl (External ''ValueError'')"
| "py_format kwargs None (c # cs) =
     (if c = CHR ''{'' then py_format kwargs (Some []) cs
      else (case py_format kwargs None cs of
              Inl e \<Rightarrow> Inl e
            | Inr s \<Rightarrow> Inr (c # s)))"
| "py_format kwargs (Some name) (c # cs) =
     (if c = CHR ''}''
      then (case map_of kwargs name of
              None \<Rightarrow> Inl KeyError
            | Some v \<Rightarrow>
                (case py_format kwargs None cs of
                   Inl e \<Rightarrow> Inl e
                 | Inr s \<Rightarrow> Inr (v @ s)))
      else py_format kwargs (Some (name @ [c])) cs)"

text \<open>
  For \<^verbatim>\<open>strftime\<close> a date is its calendar fields. \<^verbatim>\<open>%m\<close> and \<^verbatim>\<open>%d\<close> are the month and
  the day as decimal numbers padded with zeros to 2 digits; \<open>zero_padded w n\<close> is the last
  \<open>w\<close> decimal digits of \<open>n\<close>, which is that number when \<open>n < 10 ^ w\<close>. \<^verbatim>\<open>%Y\<close> is left by
  CPython to the C library, and the library of Linux writes the year as a decimal number
  without padding: four digits from the year 1000 on, fewer before (\<^verbatim>\<open>999\<close> for the year
  999). \<open>decimal_digits n\<close> is that number.
\<close>

record calendar_date =
  year :: nat
  month :: nat
  day :: nat

definition valid_calendar_date :: "calendar_date \<Rightarrow> bool" where
  "valid_calendar_date d =
     (1 \<le> year d \<and> year d \<le> 9999 \<and> 1 \<le> month d \<and> month d \<le> 12
      \<and> 1 \<le> day d \<and> day d \<le> 31)"

definition digit_char :: "nat \<Rightarrow> char" where
  "digit_char n = ''0123456789'' ! n"

fun zero_padded :: "nat \<Rightarrow> nat \<Rightarrow> string" where
  "zero_padded 0 n = []"
| "zero_padded (Suc w) n = zero_padded w (n div 10) @ [digit_char (n mod 10)]"

fun decimal_digits :: "nat \<Rightarrow> string" where
  "decimal_digits n =
     (if n < 10 then [digit_char n]
      else decimal_digits (n div 10) @ [digit_char (n mod 10)])"

definition strftime_Ymd :: "calendar_date \<Rightarrow> string" where
  "strftime_Ymd d = decimal_digits (year d) @ zero_padded 2 (month d) @ zero_padded 2 (day d)"

definition url_template :: string where
  "url_template = ''{url_base}?e={e}&sd={sd}&ed={ed}&d={d}&k={k}&o={o}&ea={ea}&p={p}''"

definition url_download :: "string \<Rightarrow> calendar_date \<Rightarrow> calendar_date \<Rightarrow> string \<Rightarrow> py_error + string" where
  "url_download market start_date end_date k =
     py_format
       [(''url_base'', ''http://www.eoddata.com/data/filedownload.aspx''),
        (''e'', market),
        (''sd'', strftime_Ymd start_date),
        (''ed'', strftime_Ymd end_date),
        (''d'', ''4''),
        (''k'', k),
        (''o'', ''d''),
        (''ea'', ''1''),
        (''p'', ''0'')]
       None url_template"

text \<open>
  \<^verbatim>\<open>download_from_eoddata\<close>, with the browser reduced to what the function reads from it
  and what it asks of it: the links of the download page, and the address of the request
  of line 143, which is the result.
\<close>

definition download_from_eoddata ::
  "calendar_date \<Rightarrow> calendar_date \<Rightarrow> string \<Rightarrow> string option list \<Rightarrow> py_error + string"
where
  "download_from_eoddata start_date end_date market url_list =
     (case extract_k url_list of
        Inl e \<Rightarrow> Inl e
      | Inr k \<Rightarrow> url_download market start_date end_date k)"

text \<open>The value of a string of decimal digits, to read the dates of an address back.\<close>

definition digit_value :: "char \<Rightarrow> nat" where
  "digit_value c = of_char c - 48"

definition is_digit :: "char \<Rightarrow> bool" where
  "is_digit c = (c \<in> set ''0123456789'')"

fun decimal_value :: "string \<Rightarrow> nat" where
  "decimal_value s = foldl (\<lambda>acc c. 10 * acc + digit_value c) 0 s"

subsection \<open>download_stock_vals\<close>

text \<open>
  The browsers of the outside world: the sessions that were started, and those of them
  that were closed. A driver is the handle of one session. The two functions of a service
  are parameters: the constructor may start a session and fail afterwards (the login is
  made on a session that is already running).
\<close>

type_synonym driver = nat

record browsers =
  started :: "driver list"
  closed :: "driver list"

record service =
  construct_driver_fcn :: "string \<Rightarrow> browsers \<Rightarrow> (py_error + driver) \<times> browsers"
  download_data_fcn ::
    "calendar_date \<Rightarrow> calendar_date \<Rightarrow> string \<Rightarrow> driver \<Rightarrow> browsers \<Rightarrow> (py_error + unit) \<times> browsers"
  n_days_history :: int

definition driver_close :: "driver \<Rightarrow> browsers \<Rightarrow> browsers" where
  "driver_close d w = w\<lparr>closed := closed w @ [d]\<rparr>"

text \<open>
  The \<^verbatim>\<open>finally\<close> clause of line 185 on the local variable \<^verbatim>\<open>driver\<close>, which is unbound
  when the constructor raised.
\<close>

definition finally_close :: "driver option \<Rightarrow> browsers \<Rightarrow> (py_error + unit) \<times> browsers" where
  "finally_close driver w =
     (case driver of
        None \<Rightarrow> (Inl UnboundLocalError, w)
      | Some d \<Rightarrow> (Inr (), driver_close d w))"

text \<open>The body of the \<^verbatim>\<open>try\<close>: its outcome, the local variable \<^verbatim>\<open>driver\<close>, the world.\<close>

definition try_body ::
  "service \<Rightarrow> calendar_date \<Rightarrow> calendar_date \<Rightarrow> string \<Rightarrow> string \<Rightarrow> browsers
     \<Rightarrow> (py_error + unit) \<times> driver option \<times> browsers"
where
  "try_body entry start_date end_date market download_dir w =
     (case construct_driver_fcn entry download_dir w of
        (Inl e, w1) \<Rightarrow> (Inl e, None, w1)
      | (Inr driver, w1) \<Rightarrow>
          (case download_data_fcn entry start_date end_date market driver w1 of
             (r, w2) \<Rightarrow> (r, Some driver, w2)))"

text \<open>
  An exception of the \<^verbatim>\<open>try\<close> body is re-raised after the \<^verbatim>\<open>finally\<close> clause has run,
  unless that clause raises itself: then its exception is the one that leaves the function.
\<close>

definition download_stock_vals ::
  "(string \<rightharpoonup> service) \<Rightarrow> calendar_date \<Rightarrow> calendar_date \<Rightarrow> string \<Rightarrow> string \<Rightarrow> string
     \<Rightarrow> browsers \<Rightarrow> (py_error + unit) \<times> browsers"
where
  "download_stock_vals service_info start_date end_date market download_dir service w =
     (case service_info service of
        None \<Rightarrow> (Inl KeyError, w)
      | Some entry \<Rightarrow>
          (case try_body entry start_date end_date market download_dir w of
             (r, driver, w') \<Rightarrow>
               (case finally_close driver w' of
                  (Inl e, w'') \<Rightarrow> (Inl e, w'')
                | (Inr u, w'') \<Rightarrow> (r, w''))))"

subsection \<open>Services for the examples\<close>

text \<open>
  \<open>login_fails\<close> starts a browser and then raises, as \<^verbatim>\<open>construct_eoddate_driver\<close> does
  when a field of the login form is not found; \<open>login_succeeds\<close> starts a browser and
  returns its handle. \<open>download_ok\<close> and \<open>download_fails\<close> leave the browsers as they are.
\<close>

definition login_fails :: "string \<Rightarrow> browsers \<Rightarrow> (py_error + driver) \<times> browsers" where
  "login_fails download_dir w =
     (Inl (External ''NoSuchElementException''), w\<lparr>started := started w @ [length (started w)]\<rparr>)"

definition login_succeeds :: "string \<Rightarrow> browsers \<Rightarrow> (py_error + driver) \<times> browsers" where
  "login_succeeds download_dir w =
     (Inr (length (started w)), w\<lparr>started := started w @ [length (started w)]\<rparr>)"

definition download_ok ::
  "calendar_date \<Rightarrow> calendar_date \<Rightarrow> string \<Rightarrow> driver \<Rightarrow> browsers \<Rightarrow> (py_error + unit) \<times> browsers"
where
  "download_ok start_date end_date market driver w = (Inr (), w)"

definition download_fails ::
  "calendar_date \<Rightarrow> calendar_date \<Rightarrow> string \<Rightarrow> driver \<Rightarrow> browsers \<Rightarrow> (py_error + unit) \<times> browsers"
where
  "download_fails start_date end_date market driver w = (Inl TokenNotFound, w)"

definition service_info_login_fails :: "string \<rightharpoonup> service" where
  "service_info_login_fails =
     [''eoddata'' \<mapsto> \<lparr>construct_driver_fcn = login_fails, download_data_fcn = download_ok,
                      n_days_history = 30\<rparr>]"

section \<open>Properties of interactive_stock_vals.py\<close>

subsection \<open>The partition\<close>

lemma letters_set_loop_empty_ticker:
  "[] \<in> set ts \<Longrightarrow> letters_set_loop ts acc = Inl IndexError"
  by (induction ts arbitrary: acc) (auto split: list.splits)

lemma letters_set_loop_first_chars:
  "[] \<notin> set ts \<Longrightarrow> letters_set_loop ts acc = Inr (acc \<union> hd ` set ts)"
  by (induction ts arbitrary: acc) (auto split: list.splits)

lemma get_letters_list_Some:
  "get_letters_list (Some ts) =
     (if [] \<in> set ts then Inl IndexError else Inr (sorted_list_of_set (hd ` set ts)))"
  by (simp add: get_letters_list_def letters_set_loop_empty_ticker letters_set_loop_first_chars)

lemma letters_all_sorted: "sorted letters_all \<and> distinct letters_all"
  unfolding letters_all_def by code_simp

lemma get_letters_list_distinct:
  assumes "get_letters_list tickers = Inr letters"
  shows "distinct letters \<and> sorted letters"
proof (cases tickers)
  case None
  with assms show ?thesis using letters_all_sorted by (auto simp: get_letters_list_def)
next
  case (Some ts)
  with assms show ?thesis by (auto simp: get_letters_list_Some split: if_splits)
qed

text \<open>
  C3, as the claim states it, fails: only the unset ticker set (\<^verbatim>\<open>None\<close>) gives the 26
  letters. The empty list takes the \<^verbatim>\<open>else\<close> branch of line 45 and gives the empty
  partition.
\<close>

theorem get_letters_list_empty_counterexample:
  "get_letters_list (Some []) = Inr []
   \<and> get_letters_list (Some []) \<noteq> Inr ''ABCDEFGHIJKLMNOPQRSTUVWXYZ''"
  by (simp add: get_letters_list_def)

text \<open>
  C3, amended: for the unset ticker set the partition is the 26 uppercase letters in
  alphabetical order; for a given list of non-empty tickers (the empty list too) it is the
  sorted sequence, without duplicates, of their first characters, so that
  \<^verbatim>\<open>['AAPL', 'GOOGL']\<close> gives exactly \<^verbatim>\<open>['A', 'G']\<close>.
\<close>

theorem partition_derivation:
  assumes "[] \<notin> set ts"
  shows "get_letters_list None = Inr ''ABCDEFGHIJKLMNOPQRSTUVWXYZ''
       \<and> (\<exists>letters. get_letters_list (Some ts) = Inr letters
             \<and> sorted letters \<and> distinct letters \<and> set letters = hd ` set ts)
       \<and> get_letters_list (Some [''AAPL'', ''GOOGL'']) = Inr ''AG''"
proof -
  have "get_letters_list None = Inr ''ABCDEFGHIJKLMNOPQRSTUVWXYZ''"
    by (simp add: get_letters_list_def letters_all_def)
  moreover have "get_letters_list (Some [''AAPL'', ''GOOGL'']) = Inr ''AG''"
    by code_simp
  moreover have "\<exists>letters. get_letters_list (Some ts) = Inr letters
             \<and> sorted letters \<and> distinct letters \<and> set letters = hd ` set ts"
    using assms by (simp add: get_letters_list_Some)
  ultimately show ?thesis by blast
qed

theorem partition_derivation_witness:
  "[] \<notin> set [''MSFT'', ''AAPL'', ''AMZN'']
   \<and> (\<exists>letters. get_letters_list (Some [''MSFT'', ''AAPL'', ''AMZN'']) = Inr letters
             \<and> sorted letters \<and> distinct letters
             \<and> set letters = hd ` set [''MSFT'', ''AAPL'', ''AMZN''])"
  using partition_derivation [of "[''MSFT'', ''AAPL'', ''AMZN'']"] by simp

text \<open>
  C10: the first character of each ticker is read unguarded. A request that contains the
  empty string makes \<^verbatim>\<open>get_letters_list\<close> raise \<^verbatim>\<open>IndexError\<close>, and the call of
  \<^verbatim>\<open>get_vals_from_eoddata\<close> ends with that error before \<^verbatim>\<open>read_eod_fn\<close> is called once and
  with the world untouched; a request without it derives a partition.
\<close>

theorem empty_ticker_raises:
  "(if [] \<in> set ts
    then get_letters_list (Some ts) = Inl IndexError
       \<and> get_vals_from_eoddata (Some ts) n_tries read_eod_fn w = (Inl IndexError, [], w)
    else \<exists>letters. get_letters_list (Some ts) = Inr letters)"
  by (simp add: get_vals_from_eoddata_def get_letters_list_Some)

theorem empty_ticker_raises_witness:
  "[] \<in> set [''AAPL'', '''']
   \<and> get_letters_list (Some [''AAPL'', '''']) = Inl IndexError
   \<and> get_vals_from_eoddata (Some [''AAPL'', '''']) 5 (\<lambda>c w. (Inr [], w)) ()
       = (Inl IndexError, [], ())"
  using empty_ticker_raises [of "[''AAPL'', '''']" 5 "\<lambda>c w. (Inr [], w)" "()"] by simp

subsection \<open>The retry loop\<close>

text \<open>
  C9: with a non-empty partition and \<open>n_tries \<le> 0\<close> the body of the retry loop never
  runs: the call fails with the exhaustion error for the first letter of the partition,
  \<^verbatim>\<open>read_eod_fn\<close> is never called and the world is untouched.
\<close>

theorem no_tries_fails_first_letter:
  assumes "get_letters_list tickers = Inr (c # cs)" and "n_tries \<le> 0"
  shows "get_vals_from_eoddata tickers n_tries read_eod_fn w
           = (Inl (ScrapeFailed c n_tries), [], w)"
  using assms by (simp add: get_vals_from_eoddata_def)

theorem no_tries_fails_first_letter_witness:
  "get_letters_list (Some [''MSFT'', ''AAPL'']) = Inr ''AM'' \<and> (- 2 :: int) \<le> 0
   \<and> get_vals_from_eoddata (Some [''MSFT'', ''AAPL'']) (- 2) (\<lambda>c w. (Inr [], w)) ()
       = (Inl (ScrapeFailed CHR ''A'' (- 2)), [], ())"
proof -
  have h: "get_letters_list (Some [''MSFT'', ''AAPL'']) = Inr ''AM''"
    by code_simp
  show ?thesis
    using h no_tries_fails_first_letter [OF h, of "- 2" "\<lambda>c w. (Inr [], w)" "()"] by simp
qed

lemma try_letter_Exhausted:
  "try_letter f c k st = Exhausted st' \<Longrightarrow>
     calls st' = calls st @ replicate k c \<and> stock_vals st' = stock_vals st"
proof (induction k arbitrary: st)
  case 0
  then show ?case by simp
next
  case (Suc k)
  then show ?case
    by (auto split: prod.splits sum.splits if_splits simp: replicate_append_same)
qed

lemma try_letter_Broke:
  "try_letter f c k st = Broke st' \<Longrightarrow>
     \<exists>j<k. calls st' = calls st @ replicate (Suc j) c
       \<and> (\<exists>t w0. fst (f c w0) = Inr t \<and> stock_vals st' = stock_vals st @ [t])"
proof (induction k arbitrary: st)
  case 0
  then show ?case by simp
next
  case (Suc k)
  obtain r w1 where fw: "f c (world st) = (r, w1)" by (cases "f c (world st)")
  show ?case
  proof (cases r)
    case (Inr t)
    with Suc.prems fw have "st' = st\<lparr>stock_vals := stock_vals st @ [t],
                    calls := calls st @ [c], world := w1\<rparr>" by simp
    moreover have "fst (f c (world st)) = Inr t" using fw Inr by simp
    ultimately show ?thesis by (intro exI[of _ 0]) auto
  next
    case (Inl e)
    with Suc.prems fw have ex: "is_Exception e"
      and rec: "try_letter f c k (st\<lparr>calls := calls st @ [c], world := w1\<rparr>) = Broke st'"
      by (auto split: if_splits)
    from Suc.IH[OF rec] obtain j t w0 where "j < k"
      "calls st' = (calls st @ [c]) @ replicate (Suc j) c"
      "fst (f c w0) = Inr t" "stock_vals st' = stock_vals st @ [t]" by auto
    then show ?thesis
      by (intro exI[of _ "Suc j"]) (auto simp: replicate_append_same)
  qed
qed

lemma try_letter_Escaped:
  "try_letter f c k st = Escaped e st' \<Longrightarrow>
     \<not> is_Exception e \<and> (\<exists>j<k. calls st' = calls st @ replicate (Suc j) c)"
proof (induction k arbitrary: st)
  case 0
  then show ?case by simp
next
  case (Suc k)
  obtain r w1 where fw: "f c (world st) = (r, w1)" by (cases "f c (world st)")
  show ?case
  proof (cases r)
    case (Inr t)
    with Suc.prems fw show ?thesis by simp
  next
    case (Inl e')
    show ?thesis
    proof (cases "is_Exception e'")
      case True
      with Suc.prems fw Inl
      have rec: "try_letter f c k (st\<lparr>calls := calls st @ [c], world := w1\<rparr>) = Escaped e st'"
        by simp
      from Suc.IH[OF rec] obtain j where "\<not> is_Exception e" "j < k"
        "calls st' = (calls st @ [c]) @ replicate (Suc j) c" by auto
      then show ?thesis
        by (intro conjI exI[of _ "Suc j"]) (auto simp: replicate_append_same)
    next
      case False
      with Suc.prems fw Inl show ?thesis by (intro conjI exI[of _ 0]) auto
    qed
  qed
qed

lemma try_letter_always_fails:
  assumes "\<forall>w. \<exists>e. fst (f c w) = Inl e \<and> is_Exception e"
  shows "\<exists>st'. try_letter f c k st = Exhausted st'"
proof (induction k arbitrary: st)
  case 0
  then show ?case by simp
next
  case (Suc k)
  obtain r w1 where fw: "f c (world st) = (r, w1)" by (cases "f c (world st)")
  with assms obtain e where "r = Inl e" "is_Exception e"
    by (metis fst_conv)
  with fw Suc.IH show ?case by simp
qed

lemma try_letter_succeeds_at_once:
  assumes "\<exists>t. fst (f c (world st)) = Inr t"
  shows "\<exists>st'. try_letter f c (Suc k) st = Broke st' \<and> calls st' = calls st @ [c]"
proof -
  obtain r w1 where fw: "f c (world st) = (r, w1)" by (cases "f c (world st)")
  with assms obtain t where "r = Inr t" by auto
  with fw show ?thesis by simp
qed


lemma count_list_replicate_same: "count_list (replicate j c) d = (if d = c then j else 0)"
  by (induction j) auto

lemma scrape_letters_log:
  assumes "distinct ls"
  shows "\<exists>extra. calls (end_state (scrape_letters f n ls st)) = calls st @ extra
           \<and> set extra \<subseteq> set ls \<and> (\<forall>c. count_list extra c \<le> nat n)"
  using assms
proof (induction ls arbitrary: st)
  case Nil
  then show ?case by (simp add: end_state_def)
next
  case (Cons l ls)
  show ?case
  proof (cases "try_letter f l (nat n) st")
    case (Broke st1)
    from try_letter_Broke[OF Broke] obtain j where j: "j < nat n"
      "calls st1 = calls st @ replicate (Suc j) l" by blast
    from Cons.prems have "distinct ls" "l \<notin> set ls" by auto
    from Cons.IH[OF \<open>distinct ls\<close>, of st1] obtain extra where
      e: "calls (end_state (scrape_letters f n ls st1)) = calls st1 @ extra"
         "set extra \<subseteq> set ls" "\<forall>c. count_list extra c \<le> nat n" by blast
    have "count_list extra l = 0"
      using e(2) \<open>l \<notin> set ls\<close> by (auto simp: count_list_0_iff)
    then have "\<forall>c. count_list (replicate (Suc j) l @ extra) c \<le> nat n"
      using e(3) j(1) by (auto simp: count_list_replicate_same simp del: replicate_Suc)
    moreover have "set (replicate (Suc j) l @ extra) \<subseteq> set (l # ls)"
      using e(2) by auto
    moreover have "calls (end_state (scrape_letters f n (l # ls) st))
                    = calls st @ (replicate (Suc j) l @ extra)"
      using Broke e(1) j(2) by simp
    ultimately show ?thesis by blast
  next
    case (Exhausted st1)
    from try_letter_Exhausted[OF Exhausted]
    have "calls st1 = calls st @ replicate (nat n) l" by simp
    then show ?thesis using Exhausted
      by (intro exI[of _ "replicate (nat n) l"])
         (auto simp: end_state_def count_list_replicate_same)
  next
    case (Escaped e st1)
    from try_letter_Escaped[OF Escaped] obtain j where "j < nat n"
      "calls st1 = calls st @ replicate (Suc j) l" by blast
    then show ?thesis using Escaped
      by (intro exI[of _ "replicate (Suc j) l"])
         (auto simp: end_state_def count_list_replicate_same simp del: replicate_Suc)
  qed
qed

lemma scrape_letters_ScrapeFailed:
  assumes "distinct ls" and "scrape_letters f n ls st = Inl (ScrapeFailed c m, st')"
  shows "m = n \<and> c \<in> set ls
       \<and> (\<exists>pre. calls st' = calls st @ pre @ replicate (nat n) c \<and> c \<notin> set pre)"
  using assms
proof (induction ls arbitrary: st)
  case Nil
  then show ?case by simp
next
  case (Cons l ls)
  show ?case
  proof (cases "try_letter f l (nat n) st")
    case (Broke st1)
    with Cons.prems have rec: "scrape_letters f n ls st1 = Inl (ScrapeFailed c m, st')"
      and d: "distinct ls" "l \<notin> set ls" by auto
    from Cons.IH[OF d(1) rec] obtain pre where p: "m = n" "c \<in> set ls"
      "calls st' = calls st1 @ pre @ replicate (nat n) c" "c \<notin> set pre" by blast
    from try_letter_Broke[OF Broke] obtain j where
      "calls st1 = calls st @ replicate (Suc j) l" by blast
    moreover have "c \<noteq> l" using p(2) d(2) by auto
    ultimately have "calls st' = calls st @ (replicate (Suc j) l @ pre) @ replicate (nat n) c"
      "c \<notin> set (replicate (Suc j) l @ pre)"
      using p(3,4) by auto
    then show ?thesis using p(1,2) by (metis list.set_intros(2))
  next
    case (Exhausted st1)
    with Cons.prems have "c = l" "m = n" "st' = st1" by auto
    moreover from try_letter_Exhausted[OF Exhausted]
    have "calls st1 = calls st @ [] @ replicate (nat n) l" by simp
    ultimately show ?thesis by (metis empty_iff list.set(1) list.set_intros(1))
  next
    case (Escaped e st1)
    with Cons.prems have "e = ScrapeFailed c m" by simp
    with try_letter_Escaped[OF Escaped] show ?thesis by simp
  qed
qed

lemma scrape_letters_fatal_letter:
  assumes fails: "\<forall>w. \<exists>e. fst (f X w) = Inl e \<and> is_Exception e"
      and ok: "\<forall>c\<in>set pre. \<forall>w. \<exists>t. fst (f c w) = Inr t"
      and pos: "0 < n"
  shows "\<exists>st'. scrape_letters f n (pre @ X # post) st = Inl (ScrapeFailed X n, st')
           \<and> calls st' = calls st @ pre @ replicate (nat n) X"
  using ok
proof (induction pre arbitrary: st)
  case Nil
  from try_letter_always_fails[of f X "nat n" st] fails obtain st' where
    ex: "try_letter f X (nat n) st = Exhausted st'" by blast
  from try_letter_Exhausted[OF ex] show ?case using ex by simp
next
  case (Cons l pre)
  from pos obtain k where k: "nat n = Suc k" by (cases "nat n") auto
  from Cons.prems have "\<exists>t. fst (f l (world st)) = Inr t" by simp
  from try_letter_succeeds_at_once[of f l st k] this obtain st1 where
    b: "try_letter f l (nat n) st = Broke st1" "calls st1 = calls st @ [l]"
    using k by auto
  from Cons.prems have "\<forall>c\<in>set pre. \<forall>w. \<exists>t. fst (f c w) = Inr t" by simp
  from Cons.IH[OF this, of st1] obtain st' where
    "scrape_letters f n (pre @ X # post) st1 = Inl (ScrapeFailed X n, st')"
    "calls st' = calls st1 @ pre @ replicate (nat n) X" by blast
  with b show ?case by simp
qed


lemma split_at_letter:
  "X \<in> set ls \<Longrightarrow> \<exists>post. ls = takeWhile (\<lambda>c. c \<noteq> X) ls @ X # post"
  by (induction ls) auto

lemma distinct_count_le_1: "distinct xs \<Longrightarrow> count_list xs c \<le> Suc 0"
  by (induction xs) (auto simp: count_list_0_iff)

lemma world_after_0: "world_after f c 0 w = w"
  by (simp add: world_after_def)

lemma world_after_Suc_shift: "world_after f c (Suc i) w = world_after f c i (snd (f c w))"
  by (simp add: world_after_def funpow_Suc_right del: funpow.simps)

lemma fails_first_Suc:
  "fails_first f c (Suc j) w \<longleftrightarrow> raises_Exception f c w \<and> fails_first f c j (snd (f c w))"
proof -
  have upt: "[0..<Suc j] = 0 # map Suc [0..<j]"
    by (simp add: upt_conv_Cons map_Suc_upt del: upt_Suc)
  show ?thesis
    unfolding fails_first_def upt
    by (simp add: list.pred_map comp_def world_after_0 world_after_Suc_shift)
qed

lemma raises_ExceptionD:
  assumes "raises_Exception f c w"
  obtains e w1 where "f c w = (Inl e, w1)" and "is_Exception e"
proof (cases "f c w")
  case (Pair r w1)
  with assms obtain e where "r = Inl e" "is_Exception e"
    by (cases r) (auto simp: raises_Exception_def)
  with Pair that show ?thesis by blast
qed

lemma try_letter_fails_first:
  "fails_first f c k (world st) \<Longrightarrow>
     try_letter f c k st
       = Exhausted (st\<lparr>calls := calls st @ replicate k c, world := world_after f c k (world st)\<rparr>)"
proof (induction k arbitrary: st)
  case 0
  then show ?case by (simp add: world_after_0)
next
  case (Suc k)
  from Suc.prems have r: "raises_Exception f c (world st)"
    and rest: "fails_first f c k (snd (f c (world st)))"
    by (simp_all add: fails_first_Suc)
  from r obtain e w1 where e: "f c (world st) = (Inl e, w1)" "is_Exception e"
    by (rule raises_ExceptionD)
  let ?st1 = "st\<lparr>calls := calls st @ [c], world := w1\<rparr>"
  have "try_letter f c (Suc k) st = try_letter f c k ?st1"
    using e by simp
  also have "\<dots> = Exhausted (?st1\<lparr>calls := calls ?st1 @ replicate k c,
                                   world := world_after f c k (world ?st1)\<rparr>)"
    using Suc.IH[of ?st1] rest e(1) by simp
  also have "\<dots> = Exhausted (st\<lparr>calls := calls st @ replicate (Suc k) c,
                                 world := world_after f c (Suc k) (world st)\<rparr>)"
    using e(1) by (simp add: world_after_Suc_shift replicate_append_same)
  finally show ?case .
qed

lemma try_letter_returns_after:
  "returns_after f c j (world st) t \<Longrightarrow> j < k \<Longrightarrow>
     try_letter f c k st
       = Broke (st\<lparr>stock_vals := stock_vals st @ [t],
                    calls := calls st @ replicate (Suc j) c,
                    world := world_after f c (Suc j) (world st)\<rparr>)"
proof (induction j arbitrary: st k)
  case 0
  then obtain k' where k: "k = Suc k'" by (cases k) auto
  from 0 have "fst (f c (world st)) = Inr t"
    by (simp add: returns_after_def world_after_0)
  then obtain w1 where "f c (world st) = (Inr t, w1)"
    by (cases "f c (world st)") simp
  then show ?case
    by (simp add: k world_after_Suc_shift world_after_0)
next
  case (Suc j)
  then obtain k' where k: "k = Suc k'" "j < k'" by (cases k) auto
  from Suc.prems(1) have r: "raises_Exception f c (world st)"
    and rest: "returns_after f c j (snd (f c (world st))) t"
    by (simp_all add: returns_after_def fails_first_Suc world_after_Suc_shift)
  from r obtain e w1 where e: "f c (world st) = (Inl e, w1)" "is_Exception e"
    by (rule raises_ExceptionD)
  let ?st1 = "st\<lparr>calls := calls st @ [c], world := w1\<rparr>"
  have "try_letter f c k st = try_letter f c k' ?st1"
    using e by (simp add: k)
  also have "\<dots> = Broke (?st1\<lparr>stock_vals := stock_vals ?st1 @ [t],
                    calls := calls ?st1 @ replicate (Suc j) c,
                    world := world_after f c (Suc j) (world ?st1)\<rparr>)"
    using Suc.IH[of ?st1 k'] rest k(2) e(1) by simp
  also have "\<dots> = Broke (st\<lparr>stock_vals := stock_vals st @ [t],
                    calls := calls st @ replicate (Suc (Suc j)) c,
                    world := world_after f c (Suc (Suc j)) (world st)\<rparr>)"
    using e(1) by (simp add: world_after_Suc_shift[of f c "Suc j"] replicate_append_same)
  finally show ?case .
qed


lemma scrape_letters_retry_then_next:
  assumes "returns_after f c j (world st) t" and "j < nat n"
  shows "scrape_letters f n (c # rest) st
           = scrape_letters f n rest
               (st\<lparr>stock_vals := stock_vals st @ [t],
                   calls := calls st @ replicate (Suc j) c,
                   world := world_after f c (Suc j) (world st)\<rparr>)"
  using try_letter_returns_after[OF assms] by simp

lemma scrape_letters_exhausted:
  assumes "fails_first f c (nat n) (world st)"
  shows "scrape_letters f n (c # rest) st
           = Inl (ScrapeFailed c n,
                  st\<lparr>calls := calls st @ replicate (nat n) c,
                      world := world_after f c (nat n) (world st)\<rparr>)"
  using try_letter_fails_first[OF assms] by simp

lemma scrape_letters_append:
  "scrape_letters f n (xs @ ys) st
     = (case scrape_letters f n xs st of
          Inl r \<Rightarrow> Inl r
        | Inr st' \<Rightarrow> scrape_letters f n ys st')"
  by (induction xs arbitrary: st) (auto split: loop_exit.splits)

lemma scrape_letters_all_return:
  assumes "\<forall>c\<in>set ls. \<forall>v. \<exists>j<nat n. \<exists>t. returns_after f c j v t"
  shows "\<exists>st' ks. scrape_letters f n ls st = Inr st'
           \<and> length ks = length ls \<and> (\<forall>k\<in>set ks. 1 \<le> k \<and> k \<le> nat n)
           \<and> calls st' = calls st @ concat (map (\<lambda>(k, c). replicate k c) (zip ks ls))"
  using assms
proof (induction ls arbitrary: st)
  case Nil
  then show ?case by simp
next
  case (Cons c ls)
  from Cons.prems obtain j t where jt: "j < nat n" "returns_after f c j (world st) t"
    by (meson list.set_intros(1))
  let ?st1 = "st\<lparr>stock_vals := stock_vals st @ [t],
                   calls := calls st @ replicate (Suc j) c,
                   world := world_after f c (Suc j) (world st)\<rparr>"
  have step: "scrape_letters f n (c # ls) st = scrape_letters f n ls ?st1"
    using scrape_letters_retry_then_next[OF jt(2) jt(1)] .
  from Cons.prems have "\<forall>c\<in>set ls. \<forall>v. \<exists>j<nat n. \<exists>t. returns_after f c j v t" by simp
  from Cons.IH[OF this, of ?st1] obtain st' ks where
    r: "scrape_letters f n ls ?st1 = Inr st'" "length ks = length ls"
       "\<forall>k\<in>set ks. 1 \<le> k \<and> k \<le> nat n"
       "calls st' = calls ?st1 @ concat (map (\<lambda>(k, c). replicate k c) (zip ks ls))"
    by blast
  have "scrape_letters f n (c # ls) st = Inr st'" using step r(1) by simp
  moreover have "length (Suc j # ks) = length (c # ls)" using r(2) by simp
  moreover have "\<forall>k\<in>set (Suc j # ks). 1 \<le> k \<and> k \<le> nat n" using r(3) jt(1) by auto
  moreover have "calls st' = calls st
      @ concat (map (\<lambda>(k, c). replicate k c) (zip (Suc j # ks) (c # ls)))"
    using r(4) by (simp del: replicate_Suc)
  ultimately show ?case by blast
qed

lemma scrape_letters_retries_then_fatal:
  assumes ok: "\<forall>c\<in>set pre. \<forall>v. \<exists>j<nat n. \<exists>t. returns_after f c j v t"
      and bad: "\<forall>v. fails_first f X (nat n) v"
  shows "\<exists>st' ks. scrape_letters f n (pre @ X # post) st = Inl (ScrapeFailed X n, st')
           \<and> length ks = length pre \<and> (\<forall>k\<in>set ks. 1 \<le> k \<and> k \<le> nat n)
           \<and> calls st' = calls st @ concat (map (\<lambda>(k, c). replicate k c) (zip ks pre))
                            @ replicate (nat n) X"
proof -
  from scrape_letters_all_return[OF ok, of st] obtain st1 ks where
    r: "scrape_letters f n pre st = Inr st1" "length ks = length pre"
       "\<forall>k\<in>set ks. 1 \<le> k \<and> k \<le> nat n"
       "calls st1 = calls st @ concat (map (\<lambda>(k, c). replicate k c) (zip ks pre))"
    by blast
  from bad have "fails_first f X (nat n) (world st1)" by simp
  from scrape_letters_exhausted[OF this, of post]
  have "scrape_letters f n (pre @ X # post) st
          = Inl (ScrapeFailed X n,
                 st1\<lparr>calls := calls st1 @ replicate (nat n) X,
                      world := world_after f X (nat n) (world st1)\<rparr>)"
    using r(1) by (simp add: scrape_letters_append)
  with r(2,3,4) show ?thesis by auto
qed

lemma scrape_letters_tables:
  "scrape_letters f n ls st0 = Inr st \<Longrightarrow>
     \<exists>tabs. stock_vals st = stock_vals st0 @ tabs \<and> length tabs = length ls
       \<and> (\<forall>i<length ls. \<exists>v. fst (f (ls ! i) v) = Inr (tabs ! i))"
proof (induction ls arbitrary: st0)
  case Nil
  then show ?case by simp
next
  case (Cons l ls)
  show ?case
  proof (cases "try_letter f l (nat n) st0")
    case (Broke st1)
    from try_letter_Broke[OF Broke] obtain t v where
      t: "fst (f l v) = Inr t" "stock_vals st1 = stock_vals st0 @ [t]" by blast
    from Cons.prems Broke have "scrape_letters f n ls st1 = Inr st" by simp
    from Cons.IH[OF this] obtain tabs where
      tabs: "stock_vals st = stock_vals st1 @ tabs" "length tabs = length ls"
            "\<forall>i<length ls. \<exists>v. fst (f (ls ! i) v) = Inr (tabs ! i)" by blast
    have "\<forall>i<length (l # ls). \<exists>v. fst (f ((l # ls) ! i) v) = Inr ((t # tabs) ! i)"
    proof (intro allI impI)
      fix i assume "i < length (l # ls)"
      then show "\<exists>v. fst (f ((l # ls) ! i) v) = Inr ((t # tabs) ! i)"
        using t(1) tabs(3) by (cases i) auto
    qed
    moreover have "stock_vals st = stock_vals st0 @ (t # tabs)"
      using t(2) tabs(1) by simp
    moreover have "length (t # tabs) = length (l # ls)" using tabs(2) by simp
    ultimately show ?thesis by blast
  next
    case (Exhausted st1)
    with Cons.prems show ?thesis by simp
  next
    case (Escaped e st1)
    with Cons.prems show ?thesis by simp
  qed
qed

lemma read_flaky_returns_after:
  "\<exists>j<2. \<exists>t. returns_after read_flaky c j v t"
proof (cases "even v")
  case True
  then have "\<exists>t. returns_after read_flaky c 1 v t"
    by (simp add: returns_after_def fails_first_def raises_Exception_def world_after_def
        read_flaky_def)
  then show ?thesis by (intro exI[of _ 1]) simp
next
  case False
  then have "\<exists>t. returns_after read_flaky c 0 v t"
    by (simp add: returns_after_def fails_first_def world_after_def read_flaky_def)
  then show ?thesis by (intro exI[of _ 0]) simp
qed

text \<open>
  C1: for any \<^verbatim>\<open>read_eod_fn\<close>, stateful or not, no letter is tried more than \<open>n_tries\<close>
  times, and a call that ends with the exhaustion error names a partition letter and
  \<open>n_tries\<close>, after exactly \<open>n_tries\<close> consecutive tries of that letter, the last calls
  made. When \<^verbatim>\<open>read_eod_fn\<close> raises an \<^verbatim>\<open>Exception\<close> on every call for the partition letter \<open>X\<close>
  and returns a table for the partition letters before it, a call with \<open>n_tries > 0\<close>
  (3 in the claim) fails with the exhaustion error for \<open>X\<close>: every failure was swallowed
  and retried, \<open>X\<close> was tried exactly \<open>n_tries\<close> times, and each letter before \<open>X\<close> once.

  Failures are swallowed and retried whatever the reader: in any state of the loop, a
  letter whose first \<open>j < n_tries\<close> calls raise and whose next call returns is called
  \<open>j + 1\<close> times, its table is appended and the loop goes on with the next letter; a
  letter whose first \<open>n_tries\<close> calls all raise is called \<open>n_tries\<close> times and ends the loop
  with the exhaustion error. Hence, when every partition letter returns within \<open>n_tries\<close>
  calls, the letters are tried one after the other, each between 1 and \<open>n_tries\<close> times,
  and the call returns a table; and when the letters before \<open>X\<close> do and \<open>X\<close> never does,
  the call fails for \<open>X\<close> after those tries and \<open>n_tries\<close> tries of \<open>X\<close>. A reader that
  raises on its first call and returns on its second is called twice for the one letter
  of \<^verbatim>\<open>['AAPL']\<close>, and the call returns.
\<close>

theorem retry_exhaustion_is_fatal:
  assumes letters: "get_letters_list tickers = Inr letters"
  shows "(\<forall>c. count_list (fst (snd (get_vals_from_eoddata tickers n_tries read_eod_fn w))) c
              \<le> nat n_tries)
       \<and> (\<forall>c m. fst (get_vals_from_eoddata tickers n_tries read_eod_fn w)
                    = Inl (ScrapeFailed c m)
              \<longrightarrow> m = n_tries \<and> c \<in> set letters
                \<and> (\<exists>pre. fst (snd (get_vals_from_eoddata tickers n_tries read_eod_fn w))
                            = pre @ replicate (nat n_tries) c \<and> c \<notin> set pre))
       \<and> (X \<in> set letters \<and> 0 < n_tries
            \<and> (\<forall>v. \<exists>e. fst (read_eod_fn X v) = Inl e \<and> is_Exception e)
            \<and> (\<forall>c\<in>set (takeWhile (\<lambda>c. c \<noteq> X) letters). \<forall>v. \<exists>t. fst (read_eod_fn c v) = Inr t)
          \<longrightarrow> fst (get_vals_from_eoddata tickers n_tries read_eod_fn w)
                  = Inl (ScrapeFailed X n_tries)
              \<and> fst (snd (get_vals_from_eoddata tickers n_tries read_eod_fn w))
                  = takeWhile (\<lambda>c. c \<noteq> X) letters @ replicate (nat n_tries) X
              \<and> count_list (fst (snd (get_vals_from_eoddata tickers n_tries read_eod_fn w))) X
                  = nat n_tries
              \<and> (\<forall>c. c \<noteq> X \<longrightarrow>
                    count_list (fst (snd (get_vals_from_eoddata tickers n_tries read_eod_fn w))) c
                      \<le> 1))
       \<and> (\<forall>st c rest j t.
             returns_after read_eod_fn c j (world st) t \<and> j < nat n_tries
             \<longrightarrow> scrape_letters read_eod_fn n_tries (c # rest) st
                   = scrape_letters read_eod_fn n_tries rest
                       (st\<lparr>stock_vals := stock_vals st @ [t],
                           calls := calls st @ replicate (Suc j) c,
                           world := world_after read_eod_fn c (Suc j) (world st)\<rparr>))
       \<and> (\<forall>st c rest.
             fails_first read_eod_fn c (nat n_tries) (world st)
             \<longrightarrow> scrape_letters read_eod_fn n_tries (c # rest) st
                   = Inl (ScrapeFailed c n_tries,
                          st\<lparr>calls := calls st @ replicate (nat n_tries) c,
                              world := world_after read_eod_fn c (nat n_tries) (world st)\<rparr>))
       \<and> ((\<forall>c\<in>set letters. \<forall>v. \<exists>j<nat n_tries. \<exists>t. returns_after read_eod_fn c j v t)
            \<longrightarrow> (\<exists>ks. length ks = length letters \<and> (\<forall>k\<in>set ks. 1 \<le> k \<and> k \<le> nat n_tries)
                    \<and> fst (snd (get_vals_from_eoddata tickers n_tries read_eod_fn w))
                        = concat (map (\<lambda>(k, c). replicate k c) (zip ks letters)))
                \<and> (letters \<noteq> [] \<longrightarrow>
                     (\<exists>combined warns.
                        fst (get_vals_from_eoddata tickers n_tries read_eod_fn w)
                          = Inr (combined, warns))))
       \<and> (X \<in> set letters
            \<and> (\<forall>c\<in>set (takeWhile (\<lambda>c. c \<noteq> X) letters).
                  \<forall>v. \<exists>j<nat n_tries. \<exists>t. returns_after read_eod_fn c j v t)
            \<and> (\<forall>v. fails_first read_eod_fn X (nat n_tries) v)
          \<longrightarrow> fst (get_vals_from_eoddata tickers n_tries read_eod_fn w)
                  = Inl (ScrapeFailed X n_tries)
              \<and> (\<exists>ks. length ks = length (takeWhile (\<lambda>c. c \<noteq> X) letters)
                    \<and> (\<forall>k\<in>set ks. 1 \<le> k \<and> k \<le> nat n_tries)
                    \<and> fst (snd (get_vals_from_eoddata tickers n_tries read_eod_fn w))
                        = concat (map (\<lambda>(k, c). replicate k c)
                                    (zip ks (takeWhile (\<lambda>c. c \<noteq> X) letters)))
                          @ replicate (nat n_tries) X))
       \<and> get_vals_from_eoddata (Some [''AAPL'']) 3 read_flaky 0
           = (Inr ([(0, quote_row ''AAPL'')], []), ''AA'', 2)"
proof -
  define st0 :: "'a scrape_state" where "st0 = \<lparr>stock_vals = [], calls = [], world = w\<rparr>"
  define r where "r = scrape_letters read_eod_fn n_tries letters st0"
  define out where "out = get_vals_from_eoddata tickers n_tries read_eod_fn w"
  have d: "distinct letters" using get_letters_list_distinct[OF letters] by simp
  have log: "fst (snd out) = calls (end_state r)"
    unfolding out_def r_def st0_def get_vals_from_eoddata_def end_state_def
    by (simp add: letters split: sum.splits prod.splits)
  have failed: "r = Inl (ScrapeFailed c m, end_state r)" if "fst out = Inl (ScrapeFailed c m)" for c m
    using that unfolding out_def r_def st0_def get_vals_from_eoddata_def end_state_def combine_def pd_concat_def
    by (auto simp: letters split: sum.splits prod.splits if_splits)
  have fails: "fst out = Inl e" if "r = Inl (e, st')" for e st'
    using that unfolding out_def r_def st0_def get_vals_from_eoddata_def
    by (simp add: letters)
  have g1: "\<forall>c. count_list (fst (snd out)) c \<le> nat n_tries"
    using scrape_letters_log[OF d, of read_eod_fn n_tries st0] log
    by (auto simp: r_def st0_def)
  have g2: "\<forall>c m. fst out = Inl (ScrapeFailed c m) \<longrightarrow> m = n_tries \<and> c \<in> set letters
            \<and> (\<exists>pre. fst (snd out) = pre @ replicate (nat n_tries) c \<and> c \<notin> set pre)"
  proof (intro allI impI)
    fix c m assume that: "fst out = Inl (ScrapeFailed c m)"
    from failed[OF that] have "scrape_letters read_eod_fn n_tries letters st0
        = Inl (ScrapeFailed c m, end_state r)" by (simp add: r_def)
    from scrape_letters_ScrapeFailed[OF d this]
    show "m = n_tries \<and> c \<in> set letters
            \<and> (\<exists>pre. fst (snd out) = pre @ replicate (nat n_tries) c \<and> c \<notin> set pre)"
      by (simp add: log st0_def)
  qed
  have g3: "X \<in> set letters \<and> 0 < n_tries
            \<and> (\<forall>v. \<exists>e. fst (read_eod_fn X v) = Inl e \<and> is_Exception e)
            \<and> (\<forall>c\<in>set (takeWhile (\<lambda>c. c \<noteq> X) letters). \<forall>v. \<exists>t. fst (read_eod_fn c v) = Inr t)
          \<longrightarrow> fst out = Inl (ScrapeFailed X n_tries)
          \<and> fst (snd out) = takeWhile (\<lambda>c. c \<noteq> X) letters @ replicate (nat n_tries) X
          \<and> count_list (fst (snd out)) X = nat n_tries
          \<and> (\<forall>c. c \<noteq> X \<longrightarrow> count_list (fst (snd out)) c \<le> 1)"
  proof (intro impI, elim conjE)
    assume x: "X \<in> set letters" and pos: "0 < n_tries"
      and bad: "\<forall>v. \<exists>e. fst (read_eod_fn X v) = Inl e \<and> is_Exception e"
      and ok: "\<forall>c\<in>set (takeWhile (\<lambda>c. c \<noteq> X) letters). \<forall>v. \<exists>t. fst (read_eod_fn c v) = Inr t"
    let ?pre = "takeWhile (\<lambda>c. c \<noteq> X) letters"
    from split_at_letter[OF x] obtain post where sp: "letters = ?pre @ X # post" by blast
    from scrape_letters_fatal_letter[OF bad ok pos, of post st0] obtain st' where
      "scrape_letters read_eod_fn n_tries (?pre @ X # post) st0 = Inl (ScrapeFailed X n_tries, st')"
      "calls st' = calls st0 @ ?pre @ replicate (nat n_tries) X" by blast
    with sp have r: "r = Inl (ScrapeFailed X n_tries, st')"
      and c: "calls st' = ?pre @ replicate (nat n_tries) X"
      by (simp_all add: r_def st0_def)
    have a: "fst out = Inl (ScrapeFailed X n_tries)" using fails[OF r] .
    have b: "fst (snd out) = ?pre @ replicate (nat n_tries) X"
      using log r c by (simp add: end_state_def)
    have "X \<notin> set ?pre" by (auto dest: set_takeWhileD)
    then have cx: "count_list (fst (snd out)) X = nat n_tries"
      by (simp add: b count_list_replicate_same count_list_0_iff)
    have "distinct ?pre" using d by simp
    then have "count_list (fst (snd out)) c \<le> 1" if "c \<noteq> X" for c
      using that distinct_count_le_1[of ?pre c] by (simp add: b count_list_replicate_same)
    with a b cx
    show "fst out = Inl (ScrapeFailed X n_tries)
          \<and> fst (snd out) = takeWhile (\<lambda>c. c \<noteq> X) letters @ replicate (nat n_tries) X
          \<and> count_list (fst (snd out)) X = nat n_tries
          \<and> (\<forall>c. c \<noteq> X \<longrightarrow> count_list (fst (snd out)) c \<le> 1)"
      by blast
  qed
  have g4: "\<forall>st c rest j t.
             returns_after read_eod_fn c j (world st) t \<and> j < nat n_tries
             \<longrightarrow> scrape_letters read_eod_fn n_tries (c # rest) st
                   = scrape_letters read_eod_fn n_tries rest
                       (st\<lparr>stock_vals := stock_vals st @ [t],
                           calls := calls st @ replicate (Suc j) c,
                           world := world_after read_eod_fn c (Suc j) (world st)\<rparr>)"
    using scrape_letters_retry_then_next by blast
  have g5: "\<forall>st c rest.
             fails_first read_eod_fn c (nat n_tries) (world st)
             \<longrightarrow> scrape_letters read_eod_fn n_tries (c # rest) st
                   = Inl (ScrapeFailed c n_tries,
                          st\<lparr>calls := calls st @ replicate (nat n_tries) c,
                              world := world_after read_eod_fn c (nat n_tries) (world st)\<rparr>)"
    using scrape_letters_exhausted by blast
  have g6: "(\<forall>c\<in>set letters. \<forall>v. \<exists>j<nat n_tries. \<exists>t. returns_after read_eod_fn c j v t)
            \<longrightarrow> (\<exists>ks. length ks = length letters \<and> (\<forall>k\<in>set ks. 1 \<le> k \<and> k \<le> nat n_tries)
                    \<and> fst (snd out) = concat (map (\<lambda>(k, c). replicate k c) (zip ks letters)))
                \<and> (letters \<noteq> [] \<longrightarrow> (\<exists>combined warns. fst out = Inr (combined, warns)))"
  proof (intro impI)
    assume ok: "\<forall>c\<in>set letters. \<forall>v. \<exists>j<nat n_tries. \<exists>t. returns_after read_eod_fn c j v t"
    from scrape_letters_all_return[OF ok, of st0] obtain st' ks where
      s: "scrape_letters read_eod_fn n_tries letters st0 = Inr st'"
         "length ks = length letters" "\<forall>k\<in>set ks. 1 \<le> k \<and> k \<le> nat n_tries"
         "calls st' = calls st0 @ concat (map (\<lambda>(k, c). replicate k c) (zip ks letters))"
      by blast
    have "fst (snd out) = calls st'"
      using log s(1) by (simp add: r_def end_state_def)
    with s(4) have a: "fst (snd out) = concat (map (\<lambda>(k, c). replicate k c) (zip ks letters))"
      by (simp add: st0_def)
    have b: "\<exists>combined warns. fst out = Inr (combined, warns)" if ne: "letters \<noteq> []"
    proof -
      from scrape_letters_tables[OF s(1)] have "length (stock_vals st') = length letters"
        by (simp add: st0_def)
      with ne have "stock_vals st' \<noteq> []" by auto
      then obtain combined where "combine tickers (stock_vals st') = Inr combined"
        by (simp add: combine_def pd_concat_def)
      with s(1) show ?thesis
        unfolding out_def st0_def get_vals_from_eoddata_def by (simp add: letters)
    qed
    from a b s(2,3)
    show "(\<exists>ks. length ks = length letters \<and> (\<forall>k\<in>set ks. 1 \<le> k \<and> k \<le> nat n_tries)
                    \<and> fst (snd out) = concat (map (\<lambda>(k, c). replicate k c) (zip ks letters)))
                \<and> (letters \<noteq> [] \<longrightarrow> (\<exists>combined warns. fst out = Inr (combined, warns)))"
      by blast
  qed
  have g7: "X \<in> set letters
            \<and> (\<forall>c\<in>set (takeWhile (\<lambda>c. c \<noteq> X) letters).
                  \<forall>v. \<exists>j<nat n_tries. \<exists>t. returns_after read_eod_fn c j v t)
            \<and> (\<forall>v. fails_first read_eod_fn X (nat n_tries) v)
          \<longrightarrow> fst out = Inl (ScrapeFailed X n_tries)
              \<and> (\<exists>ks. length ks = length (takeWhile (\<lambda>c. c \<noteq> X) letters)
                    \<and> (\<forall>k\<in>set ks. 1 \<le> k \<and> k \<le> nat n_tries)
                    \<and> fst (snd out)
                        = concat (map (\<lambda>(k, c). replicate k c)
                                    (zip ks (takeWhile (\<lambda>c. c \<noteq> X) letters)))
                          @ replicate (nat n_tries) X)"
  proof (intro impI, elim conjE)
    assume x: "X \<in> set letters"
      and ok: "\<forall>c\<in>set (takeWhile (\<lambda>c. c \<noteq> X) letters).
                  \<forall>v. \<exists>j<nat n_tries. \<exists>t. returns_after read_eod_fn c j v t"
      and bad: "\<forall>v. fails_first read_eod_fn X (nat n_tries) v"
    let ?pre = "takeWhile (\<lambda>c. c \<noteq> X) letters"
    from split_at_letter[OF x] obtain post where sp: "letters = ?pre @ X # post" by blast
    from scrape_letters_retries_then_fatal[OF ok bad, of post st0] obtain st' ks where
      s: "scrape_letters read_eod_fn n_tries (?pre @ X # post) st0
            = Inl (ScrapeFailed X n_tries, st')"
         "length ks = length ?pre" "\<forall>k\<in>set ks. 1 \<le> k \<and> k \<le> nat n_tries"
         "calls st' = calls st0 @ concat (map (\<lambda>(k, c). replicate k c) (zip ks ?pre))
                        @ replicate (nat n_tries) X"
      by blast
    from s(1) sp have r: "r = Inl (ScrapeFailed X n_tries, st')" by (simp add: r_def)
    have a: "fst out = Inl (ScrapeFailed X n_tries)" using fails[OF r] .
    have b: "fst (snd out) = concat (map (\<lambda>(k, c). replicate k c) (zip ks ?pre))
                        @ replicate (nat n_tries) X"
      using log r s(4) by (simp add: end_state_def st0_def)
    from a b s(2,3)
    show "fst out = Inl (ScrapeFailed X n_tries)
              \<and> (\<exists>ks. length ks = length ?pre
                    \<and> (\<forall>k\<in>set ks. 1 \<le> k \<and> k \<le> nat n_tries)
                    \<and> fst (snd out)
                        = concat (map (\<lambda>(k, c). replicate k c) (zip ks ?pre))
                          @ replicate (nat n_tries) X)"
      by blast
  qed
  have g8: "get_vals_from_eoddata (Some [''AAPL'']) 3 read_flaky 0
           = (Inr ([(0, quote_row ''AAPL'')], []), ''AA'', 2)"
    by code_simp
  from g1 g2 g3 g4 g5 g6 g7 g8 show ?thesis
    unfolding out_def by (intro conjI)
qed

theorem retry_exhaustion_is_fatal_witness:
  "get_letters_list (Some [''XOM'', ''AAPL'', ''MSFT'', ''ZION'']) = Inr ''AMXZ''
   \<and> get_vals_from_eoddata (Some [''XOM'', ''AAPL'', ''MSFT'', ''ZION'']) 3
        (\<lambda>c w. if c = CHR ''X'' then (Inl (External ''timeout''), Suc w) else (Inr [], Suc w))
        (0::nat)
      = (Inl (ScrapeFailed CHR ''X'' 3), ''AMXXX'', 5)
   \<and> get_letters_list (Some [''GOOGL'', ''AAPL'']) = Inr ''AG''
   \<and> (\<exists>ks. length ks = length ''AG''
          \<and> fst (snd (get_vals_from_eoddata (Some [''GOOGL'', ''AAPL'']) 2 read_flaky 0))
              = concat (map (\<lambda>(k, c). replicate k c) (zip ks ''AG'')))
   \<and> (\<exists>combined warns.
          fst (get_vals_from_eoddata (Some [''GOOGL'', ''AAPL'']) 2 read_flaky 0)
            = Inr (combined, warns))"
proof -
  have h: "get_letters_list (Some [''XOM'', ''AAPL'', ''MSFT'', ''ZION'']) = Inr ''AMXZ''"
    by code_simp
  have w: "snd (snd (get_vals_from_eoddata (Some [''XOM'', ''AAPL'', ''MSFT'', ''ZION'']) 3
        (\<lambda>c w. if c = CHR ''X'' then (Inl (External ''timeout''), Suc w) else (Inr [], Suc w))
        (0::nat))) = 5"
    by code_simp
  note fatal = retry_exhaustion_is_fatal [OF h, of 3
        "\<lambda>c w. if c = CHR ''X'' then (Inl (External ''timeout''), Suc w) else (Inr [], Suc w)"
        0 "CHR ''X''", THEN conjunct2, THEN conjunct2, THEN conjunct1]
  have a: "get_vals_from_eoddata (Some [''XOM'', ''AAPL'', ''MSFT'', ''ZION'']) 3
        (\<lambda>c w. if c = CHR ''X'' then (Inl (External ''timeout''), Suc w) else (Inr [], Suc w))
        (0::nat)
      = (Inl (ScrapeFailed CHR ''X'' 3), ''AMXXX'', 5)"
    using w fatal by (simp add: prod_eq_iff numeral_3_eq_3)
  have g: "get_letters_list (Some [''GOOGL'', ''AAPL'']) = Inr ''AG''"
    by code_simp
  have ok: "\<forall>c\<in>set ''AG''. \<forall>v. \<exists>j<nat 2. \<exists>t. returns_after read_flaky c j v t"
    using read_flaky_returns_after by simp
  note flaky = retry_exhaustion_is_fatal [OF g, of 2 read_flaky 0 "CHR ''X''",
        THEN conjunct2, THEN conjunct2, THEN conjunct2, THEN conjunct2, THEN conjunct2,
        THEN conjunct1, THEN mp, OF ok]
  from flaky have b: "\<exists>ks. length ks = length ''AG''
          \<and> fst (snd (get_vals_from_eoddata (Some [''GOOGL'', ''AAPL'']) 2 read_flaky 0))
              = concat (map (\<lambda>(k, c). replicate k c) (zip ks ''AG''))"
    by blast
  from flaky have c: "\<exists>combined warns.
          fst (get_vals_from_eoddata (Some [''GOOGL'', ''AAPL'']) 2 read_flaky 0)
            = Inr (combined, warns)"
    by simp
  from h a g b c show ?thesis by (intro conjI)
qed

subsection \<open>Combination and reconciliation\<close>

lemma reset_index_rows: "map snd (reset_index df) = map snd df"
  by (simp add: reset_index_def)

lemma reset_index_labels: "map fst (reset_index df) = map int [0..<length (reset_index df)]"
  by (simp add: reset_index_def)

lemma isin_Code_rows:
  "map snd (isin_Code ts df) = filter (\<lambda>r. Code r \<in> set ts) (map snd df)"
  by (induction df) (auto simp: isin_Code_def)

lemma get_vals_completed:
  assumes "get_letters_list tickers = Inr letters"
      and "scrape_letters read_eod_fn n_tries letters \<lparr>stock_vals = [], calls = [], world = w\<rparr> = Inr st"
      and "combine tickers (stock_vals st) = Inr combined"
  shows "get_vals_from_eoddata tickers n_tries read_eod_fn w
           = (Inr (combined, reconcile tickers combined), calls st, world st)"
  using assms by (simp add: get_vals_from_eoddata_def)

text \<open>
  C6, amended: when the partition is not empty and the loop over its letters completes, the
  call returns a table; the tables appended to \<^verbatim>\<open>stock_vals\<close> are one per letter, in
  partition order, each returned by \<^verbatim>\<open>read_eod_fn\<close> for its letter; the rows of the result
  are the rows of their concatenation, in that order, kept exactly when no tickers were
  given or the row's \<^verbatim>\<open>Code\<close> is a requested ticker; and the index of the result is
  \<open>0, 1, \<dots>\<close> without gaps, since the renumbering follows the subsetting.
\<close>

theorem combined_table:
  assumes letters: "get_letters_list tickers = Inr letters" and ne: "letters \<noteq> []"
      and fetched: "scrape_letters read_eod_fn n_tries letters
                       \<lparr>stock_vals = [], calls = [], world = w\<rparr> = Inr st"
  shows "\<exists>combined warns.
           fst (get_vals_from_eoddata tickers n_tries read_eod_fn w) = Inr (combined, warns)
         \<and> length (stock_vals st) = length letters
         \<and> (\<forall>i<length letters. \<exists>v. fst (read_eod_fn (letters ! i) v) = Inr (stock_vals st ! i))
         \<and> map snd combined
             = filter (\<lambda>r. case tickers of None \<Rightarrow> True | Some ts \<Rightarrow> Code r \<in> set ts)
                 (map snd (concat (stock_vals st)))
         \<and> map fst combined = map int [0..<length combined]"
proof -
  from scrape_letters_tables[OF fetched]
  have len: "length (stock_vals st) = length letters"
    and src: "\<forall>i<length letters. \<exists>v. fst (read_eod_fn (letters ! i) v) = Inr (stock_vals st ! i)"
    by auto
  from len ne have "stock_vals st \<noteq> []" by auto
  then obtain combined where c: "combine tickers (stock_vals st) = Inr combined"
    by (simp add: combine_def pd_concat_def)
  have rows: "map snd combined
      = filter (\<lambda>r. case tickers of None \<Rightarrow> True | Some ts \<Rightarrow> Code r \<in> set ts)
          (map snd (concat (stock_vals st)))"
    using c \<open>stock_vals st \<noteq> []\<close>
    by (cases tickers) (auto simp: combine_def pd_concat_def reset_index_rows isin_Code_rows)
  have labels: "map fst combined = map int [0..<length combined]"
    using c \<open>stock_vals st \<noteq> []\<close> reset_index_labels
    by (auto simp: combine_def pd_concat_def)
  from get_vals_completed[OF letters fetched c] len src rows labels show ?thesis by auto
qed



theorem combined_table_witness:
  "get_letters_list (Some [''GOOGL'', ''AMZN'']) = Inr ''AG'' \<and> ''AG'' \<noteq> []
   \<and> scrape_letters read_flaky 2 ''AG'' \<lparr>stock_vals = [], calls = [], world = 0\<rparr>
       = Inr \<lparr>stock_vals = [[(0, quote_row ''AAPL''), (1, quote_row ''AMZN'')],
                             [(0, quote_row ''GOOGL'')]],
              calls = ''AAGG'', world = 4\<rparr>
   \<and> (\<exists>warns. fst (get_vals_from_eoddata (Some [''GOOGL'', ''AMZN'']) 2 read_flaky 0)
       = Inr ([(0, quote_row ''AMZN''), (1, quote_row ''GOOGL'')], warns))"
proof -
  have h: "get_letters_list (Some [''GOOGL'', ''AMZN'']) = Inr ''AG''"
    by code_simp
  have f: "scrape_letters read_flaky 2 ''AG'' \<lparr>stock_vals = [], calls = [], world = 0\<rparr>
       = Inr \<lparr>stock_vals = [[(0, quote_row ''AAPL''), (1, quote_row ''AMZN'')],
                             [(0, quote_row ''GOOGL'')]],
              calls = ''AAGG'', world = 4\<rparr>"
    by code_simp
  have r: "\<exists>warns. fst (get_vals_from_eoddata (Some [''GOOGL'', ''AMZN'']) 2 read_flaky 0)
       = Inr ([(0, quote_row ''AMZN''), (1, quote_row ''GOOGL'')], warns)"
    using combined_table [OF h _ f]
    by (auto simp: quote_row_def)
  show ?thesis using h f r by simp
qed


text \<open>
  C6, as the claim states it, fails twice. For the empty list of tickers the partition is
  empty, every one of its letters has been read, and \<^verbatim>\<open>pd.concat\<close> raises instead of
  giving a combined table. And a table renumbered before it is subset would keep the label
  1 for the row of AMZN below, where the call returns it with the label 0.
\<close>

theorem combined_table_counterexample:
  "get_vals_from_eoddata (Some []) 5 read_two_rows () = (Inl NoObjectsToConcatenate, [], ())
   \<and> fst (get_vals_from_eoddata (Some [''AMZN'']) 5 read_two_rows ())
       = Inr ([(0, quote_row ''AMZN'')], [])
   \<and> combine_as_specified (Some [''AMZN''])
         [[(0, quote_row ''AAPL''), (1, quote_row ''AMZN'')]]
       = [(1, quote_row ''AMZN'')]"
proof -
  have "get_vals_from_eoddata (Some []) 5 read_two_rows () = (Inl NoObjectsToConcatenate, [], ())"
    by code_simp
  moreover have "fst (get_vals_from_eoddata (Some [''AMZN'']) 5 read_two_rows ())
       = Inr ([(0, quote_row ''AMZN'')], [])"
    by code_simp
  moreover have "combine_as_specified (Some [''AMZN''])
         [[(0, quote_row ''AAPL''), (1, quote_row ''AMZN'')]]
       = [(1, quote_row ''AMZN'')]"
    by code_simp
  ultimately show ?thesis by blast
qed

text \<open>
  C7, as the claim states it, fails: for the tickers AAPL and NOTASTOCK the pages of the
  letters A and N are both read, and a reader that returns the one-row table of AAPL
  whenever it is called makes the result hold AAPL twice.
\<close>

theorem reconcile_counterexample:
  "get_vals_from_eoddata (Some [''AAPL'', ''NOTASTOCK'']) 5 read_aapl_everywhere ()
     = (Inr ([(0, quote_row ''AAPL''), (1, quote_row ''AAPL'')],
             [StocksNotFound [''NOTASTOCK'']]), ''AN'', ())"
  by code_simp

lemma reconcile_lists_missing:
  "(\<exists>missing. StocksNotFound missing \<in> set (reconcile tickers combined) \<and> t \<in> set missing)
     \<longleftrightarrow> (\<exists>ts. tickers = Some ts \<and> t \<in> set ts) \<and> t \<notin> Code ` snd ` set combined"
  by (cases tickers) (auto simp: reconcile_def tickers_not_in_def filter_empty_conv)

text \<open>
  C7, amended: once the pages are read and combined, the call returns the combined table
  as it is, and the warning lists exactly the requested tickers whose \<^verbatim>\<open>Code\<close> is not in
  it. For the tickers AAPL and NOTASTOCK and a reader that returns the row of AAPL for the
  letter A and no row for the letter N, the result has the one row of AAPL and the warning
  names NOTASTOCK.
\<close>

theorem reconciliation_warns:
  assumes letters: "get_letters_list tickers = Inr letters"
      and fetched: "scrape_letters read_eod_fn n_tries letters
                       \<lparr>stock_vals = [], calls = [], world = w\<rparr> = Inr st"
      and combined: "combine tickers (stock_vals st) = Inr combined"
  shows "(\<exists>warns. fst (get_vals_from_eoddata tickers n_tries read_eod_fn w) = Inr (combined, warns)
            \<and> (\<forall>t. (\<exists>missing. StocksNotFound missing \<in> set warns \<and> t \<in> set missing)
                      \<longleftrightarrow> (\<exists>ts. tickers = Some ts \<and> t \<in> set ts)
                          \<and> t \<notin> Code ` snd ` set combined))
       \<and> get_vals_from_eoddata (Some [''AAPL'', ''NOTASTOCK'']) 5 read_aapl_page ()
           = (Inr ([(0, quote_row ''AAPL'')], [StocksNotFound [''NOTASTOCK'']]), ''AN'', ())"
proof -
  have "get_vals_from_eoddata (Some [''AAPL'', ''NOTASTOCK'']) 5 read_aapl_page ()
           = (Inr ([(0, quote_row ''AAPL'')], [StocksNotFound [''NOTASTOCK'']]), ''AN'', ())"
    by code_simp
  moreover have "fst (get_vals_from_eoddata tickers n_tries read_eod_fn w)
      = Inr (combined, reconcile tickers combined)"
    using get_vals_completed[OF letters fetched combined] by simp
  ultimately show ?thesis using reconcile_lists_missing[of tickers combined] by blast
qed

theorem reconciliation_warns_witness:
  "get_letters_list (Some [''GOOGL'', ''MSFT'', ''AMZN'']) = Inr ''AGM''
   \<and> scrape_letters read_flaky 2 ''AGM'' \<lparr>stock_vals = [], calls = [], world = 0\<rparr>
       = Inr \<lparr>stock_vals = [[(0, quote_row ''AAPL''), (1, quote_row ''AMZN'')],
                             [(0, quote_row ''GOOGL'')], []],
              calls = ''AAGGMM'', world = 6\<rparr>
   \<and> combine (Some [''GOOGL'', ''MSFT'', ''AMZN''])
         [[(0, quote_row ''AAPL''), (1, quote_row ''AMZN'')], [(0, quote_row ''GOOGL'')], []]
       = Inr [(0, quote_row ''AMZN''), (1, quote_row ''GOOGL'')]
   \<and> (\<exists>warns. fst (get_vals_from_eoddata (Some [''GOOGL'', ''MSFT'', ''AMZN'']) 2 read_flaky 0)
                  = Inr ([(0, quote_row ''AMZN''), (1, quote_row ''GOOGL'')], warns)
          \<and> (\<exists>missing. StocksNotFound missing \<in> set warns \<and> ''MSFT'' \<in> set missing))"
proof -
  have h: "get_letters_list (Some [''GOOGL'', ''MSFT'', ''AMZN'']) = Inr ''AGM''"
    by code_simp
  have f: "scrape_letters read_flaky 2 ''AGM'' \<lparr>stock_vals = [], calls = [], world = 0\<rparr>
       = Inr \<lparr>stock_vals = [[(0, quote_row ''AAPL''), (1, quote_row ''AMZN'')],
                             [(0, quote_row ''GOOGL'')], []],
              calls = ''AAGGMM'', world = 6\<rparr>"
    by code_simp
  have c: "combine (Some [''GOOGL'', ''MSFT'', ''AMZN''])
         [[(0, quote_row ''AAPL''), (1, quote_row ''AMZN'')], [(0, quote_row ''GOOGL'')], []]
       = Inr [(0, quote_row ''AMZN''), (1, quote_row ''GOOGL'')]"
    by code_simp
  have c': "combine (Some [''GOOGL'', ''MSFT'', ''AMZN''])
      (stock_vals \<lparr>stock_vals = [[(0, quote_row ''AAPL''), (1, quote_row ''AMZN'')],
                             [(0, quote_row ''GOOGL'')], []],
              calls = ''AAGGMM'', world = (6::nat)\<rparr>)
       = Inr [(0, quote_row ''AMZN''), (1, quote_row ''GOOGL'')]"
    using c by simp
  note inst = reconciliation_warns [OF h f c', THEN conjunct1]
  then obtain warns where
    w12: "fst (get_vals_from_eoddata (Some [''GOOGL'', ''MSFT'', ''AMZN'']) 2 read_flaky 0)
           = Inr ([(0, quote_row ''AMZN''), (1, quote_row ''GOOGL'')], warns)
       \<and> (\<forall>t. (\<exists>missing. StocksNotFound missing \<in> set warns \<and> t \<in> set missing)
         \<longleftrightarrow> (\<exists>ts. Some [''GOOGL'', ''MSFT'', ''AMZN''] = Some ts \<and> t \<in> set ts)
             \<and> t \<notin> Code ` snd ` set [(0::int, quote_row ''AMZN''), (1, quote_row ''GOOGL'')])"
    by (elim exE)
  note w1 = w12 [THEN conjunct1] and w2all = w12 [THEN conjunct2]
  note w2 = w2all [rule_format, of "''MSFT''"]
  have "''MSFT'' \<notin> Code ` snd ` set [(0::int, quote_row ''AMZN''), (1, quote_row ''GOOGL'')]"
    by (simp add: quote_row_def)
  with w2 have "\<exists>missing. StocksNotFound missing \<in> set warns \<and> ''MSFT'' \<in> set missing"
    by simp
  with w1 h f c show ?thesis by blast
qed

section \<open>Properties of download_stock_vals.py\<close>

subsection \<open>The validator of the dates\<close>

lemma timedelta_in_range:
  assumes "valid_date today" and "valid_date (today - n)"
  shows "timedelta n = Inr n"
  using assms by (auto simp: timedelta_def valid_date_def)

lemma check_valid_dates_in_range:
  assumes "valid_date today" and "valid_date (today - n)"
  shows "check_valid_dates s e n today =
           (if s < today - n then Inl (InvalidRange TooEarly)
            else if today < s then Inl (InvalidRange FutureStart)
            else if e < s then Inl (InvalidRange Inverted)
            else Inr ())"
  using assms timedelta_in_range[OF assms]
  by (simp add: check_valid_dates_def date_sub_def valid_date_def)

text \<open>
  C4, as the claim states it, fails: the boundary \<^verbatim>\<open>today - timedelta(days=n_days_history)\<close>
  is computed first, and for a window that reaches before 0001-01-01 that computation
  raises \<^verbatim>\<open>OverflowError\<close>, also for a start after today, where the claim has the range
  error.
\<close>

theorem check_valid_dates_counterexample:
  "check_valid_dates 737001 737001 4000000 737000 = Inl OverflowError
   \<and> valid_date 737000 \<and> valid_date 737001 \<and> (737000 :: int) < 737001"
  by (simp add: check_valid_dates_def timedelta_def date_sub_def valid_date_def)

text \<open>
  C4, amended: when the boundary \<open>today - lookback_days\<close> is a date (as it is for the window
  of 30 days of the \<^verbatim>\<open>eoddata\<close> service), the validator raises its range error exactly when
  the start is before the boundary, or after today, or after the end; otherwise it returns,
  in particular for a start on the boundary itself.
\<close>

theorem check_valid_dates_InvalidRange:
  assumes "valid_date today" and "valid_date (today - lookback_days)"
  shows "((\<exists>c. check_valid_dates start_date end_date lookback_days today = Inl (InvalidRange c))
            \<longleftrightarrow> start_date < today - lookback_days \<or> today < start_date
                \<or> end_date < start_date)
       \<and> (check_valid_dates start_date end_date lookback_days today = Inr ()
            \<longleftrightarrow> today - lookback_days \<le> start_date \<and> start_date \<le> today
                \<and> start_date \<le> end_date)
       \<and> (start_date = today - lookback_days \<and> start_date \<le> today \<and> start_date \<le> end_date
            \<longrightarrow> check_valid_dates start_date end_date lookback_days today = Inr ())"
  by (auto simp: check_valid_dates_in_range[OF assms])

theorem check_valid_dates_InvalidRange_witness:
  "valid_date 737000 \<and> valid_date (737000 - 30)
   \<and> check_valid_dates 736970 737000 30 737000 = Inr ()
   \<and> (\<exists>c. check_valid_dates 736969 737000 30 737000 = Inl (InvalidRange c))"
proof -
  have v: "valid_date 737000" "valid_date (737000 - 30)"
    by (simp_all add: valid_date_def)
  from check_valid_dates_InvalidRange [OF v, of 736970 737000]
  have a: "check_valid_dates 736970 737000 30 737000 = Inr ()" by simp
  from check_valid_dates_InvalidRange [OF v, of 736969 737000]
  have b: "\<exists>c. check_valid_dates 736969 737000 30 737000 = Inl (InvalidRange c)" by simp
  from v a b show ?thesis by simp
qed

subsection \<open>The token\<close>

lemma k_loop_first_match:
  "k_loop url_list =
     (case List.find re_match_filedownload (List.map_filter (\<lambda>href. href) url_list) of
        None \<Rightarrow> Inr []
      | Some url_string \<Rightarrow>
          (case re_search_k url_string of
             None \<Rightarrow> Inl AttributeError
           | Some k \<Rightarrow> Inr k))"
proof (induction url_list rule: k_loop.induct)
  case 1
  then show ?case by (simp add: List.map_filter_simps)
next
  case (2 rest)
  then show ?case by (simp add: List.map_filter_simps)
next
  case (3 url_string rest)
  then show ?case by (simp add: List.map_filter_simps)
qed

lemma re_search_k_Some:
  "re_search_k s = Some k \<Longrightarrow>
     \<exists>pre post. s = pre @ ''k='' @ k @ post \<and> CHR ''&'' \<notin> set k
        \<and> (post = [] \<or> hd post = CHR ''&'')"
proof (induction s rule: re_search_k.induct)
  case 1
  then show ?case by simp
next
  case (2 c)
  then show ?case by simp
next
  case (3 c d rest)
  show ?case
  proof (cases "c = CHR ''k'' \<and> d = CHR ''=''")
    case True
    with "3.prems" have k: "k = takeWhile (\<lambda>x. x \<noteq> CHR ''&'') rest" by simp
    let ?post = "dropWhile (\<lambda>x. x \<noteq> CHR ''&'') rest"
    have "c # d # rest = [] @ ''k='' @ k @ ?post" using True k by simp
    moreover have "CHR ''&'' \<notin> set k" using k by (auto dest: set_takeWhileD)
    moreover have "?post = [] \<or> hd ?post = CHR ''&''"
      using hd_dropWhile[of "\<lambda>x. x \<noteq> CHR ''&''" rest] by auto
    ultimately show ?thesis by blast
  next
    case False
    with "3.prems" have "re_search_k (d # rest) = Some k" by auto
    with "3.IH" False obtain pre post where
      "d # rest = pre @ ''k='' @ k @ post" "CHR ''&'' \<notin> set k"
      "post = [] \<or> hd post = CHR ''&''" by blast
    then have "c # d # rest = (c # pre) @ ''k='' @ k @ post" by simp
    with \<open>CHR ''&'' \<notin> set k\<close> \<open>post = [] \<or> hd post = CHR ''&''\<close> show ?thesis by blast
  qed
qed

lemma is_download_link_matches:
  assumes "is_download_link u"
  shows "re_match_filedownload u"
proof -
  have "u = takeWhile (\<lambda>c. c \<noteq> CHR ''?'') u @ dropWhile (\<lambda>c. c \<noteq> CHR ''?'') u"
    by simp
  with assms have "u = ''/data/filedownload.aspx'' @ dropWhile (\<lambda>c. c \<noteq> CHR ''?'') u"
    by (simp add: is_download_link_def href_path_def)
  then obtain rest where "u = ''/data/filedownload.aspx'' @ rest" ..
  then show ?thesis by (simp add: re_match_filedownload_def)
qed

lemma find_same_links:
  "\<forall>u\<in>set hrefs. P u \<longleftrightarrow> Q u \<Longrightarrow> List.find P hrefs = List.find Q hrefs"
  by (induction hrefs) auto

lemma re_search_k_skip:
  "c \<noteq> CHR ''k'' \<Longrightarrow> re_search_k (c # s) = re_search_k s"
  by (cases s) auto

lemma re_search_k_endpoint:
  "re_search_k (''/data/filedownload.aspx?'' @ s) = re_search_k s"
  by (simp add: re_search_k_skip)

lemma k_eq_free_Cons:
  "k_eq_free (c # s) \<longleftrightarrow>
     (case s of [] \<Rightarrow> True | d # _ \<Rightarrow> \<not> (c = CHR ''k'' \<and> d = CHR ''='')) \<and> k_eq_free s"
  by (cases s) (auto simp: k_eq_free_def)

lemma re_search_k_first:
  "k_eq_free before \<Longrightarrow>
     re_search_k (before @ ''k='' @ tail) = Some (takeWhile (\<lambda>x. x \<noteq> CHR ''&'') tail)"
proof (induction before)
  case Nil
  then show ?case by simp
next
  case (Cons c before)
  then have free: "k_eq_free before" by (simp add: k_eq_free_Cons)
  show ?case
  proof (cases before)
    case Nil
    then show ?thesis by simp
  next
    case (Cons d before')
    with Cons.prems have "\<not> (c = CHR ''k'' \<and> d = CHR ''='')"
      by (simp add: k_eq_free_Cons)
    with Cons Cons.IH[OF free] show ?thesis by auto
  qed
qed

lemma takeWhile_value:
  "CHR ''&'' \<notin> set v \<Longrightarrow> rest = [] \<or> hd rest = CHR ''&'' \<Longrightarrow>
     takeWhile (\<lambda>x. x \<noteq> CHR ''&'') (v @ rest) = v"
proof (induction v)
  case Nil
  then show ?case by (cases rest) auto
next
  case (Cons a v)
  then show ?case by auto
qed

lemma k_parameter_search:
  assumes "k_parameter u before v rest"
  shows "re_search_k u = Some v" and "is_download_link u"
proof -
  from assms have u: "u = ''/data/filedownload.aspx?'' @ before @ ''k='' @ v @ rest"
    and free: "k_eq_free before" and v: "CHR ''&'' \<notin> set v"
    and rest: "rest = [] \<or> hd rest = CHR ''&''"
    by (simp_all add: k_parameter_def)
  have "re_search_k u = re_search_k (before @ ''k='' @ (v @ rest))"
    unfolding u by (rule re_search_k_endpoint)
  also have "\<dots> = Some (takeWhile (\<lambda>x. x \<noteq> CHR ''&'') (v @ rest))"
    using free by (rule re_search_k_first)
  also have "\<dots> = Some v" using takeWhile_value[OF v rest] by simp
  finally show "re_search_k u = Some v" .
  show "is_download_link u"
    unfolding u by (simp add: is_download_link_def href_path_def)
qed

text \<open>
  C2, as the claim states it, fails: the empty string is both the initial value of \<^verbatim>\<open>k\<close>
  and the test of line 125, so a page whose first download link carries an empty \<^verbatim>\<open>k\<close>
  is refused like a page with no download link.
\<close>

theorem extract_k_counterexample:
  "is_download_link ''/data/filedownload.aspx?e=INDEX&k=&o=d''
   \<and> re_match_filedownload ''/data/filedownload.aspx?e=INDEX&k=&o=d''
   \<and> k_parameter ''/data/filedownload.aspx?e=INDEX&k=&o=d'' ''e=INDEX&'' [] ''&o=d''
   \<and> extract_k [Some ''/data/filedownload.aspx?e=INDEX&k=&o=d''] = Inl TokenNotFound"
  by code_simp

lemma extract_k_by_search:
  "extract_k url_list =
     (case List.find re_match_filedownload (List.map_filter (\<lambda>href. href) url_list) of
        None \<Rightarrow> Inl TokenNotFound
      | Some url_string \<Rightarrow>
          (case re_search_k url_string of
             None \<Rightarrow> Inl AttributeError
           | Some k \<Rightarrow> if k = [] then Inl TokenNotFound else Inr k))"
  by (simp add: extract_k_def k_loop_first_match split: option.splits)

text \<open>
  C2, amended: on a page where the pattern matches the download links only, the links are
  scanned in document order, those without \<^verbatim>\<open>href\<close> skipped, and the first download link
  decides, later ones are not read. With no download link on the page the function fails
  with \<open>TokenNotFound\<close>. When the \<^verbatim>\<open>k\<close> parameter of the first download link is the first
  \<^verbatim>\<open>k=\<close> of the link, the function returns the value of that parameter, and fails with
  \<open>TokenNotFound\<close> exactly when that value is empty. A link with \<^verbatim>\<open>k=abc123\<close> gives
  \<^verbatim>\<open>abc123\<close>.
\<close>

theorem extract_k_token:
  assumes only_download_links:
    "\<forall>u\<in>set (List.map_filter (\<lambda>href. href) url_list).
        re_match_filedownload u \<longrightarrow> is_download_link u"
  shows "(List.find is_download_link (List.map_filter (\<lambda>href. href) url_list) = None
            \<longrightarrow> extract_k url_list = Inl TokenNotFound)
       \<and> (\<forall>u before v rest.
             List.find is_download_link (List.map_filter (\<lambda>href. href) url_list) = Some u
             \<and> k_parameter u before v rest
             \<longrightarrow> extract_k url_list = (if v = [] then Inl TokenNotFound else Inr v)
               \<and> (extract_k url_list = Inl TokenNotFound \<longleftrightarrow> v = []))
       \<and> extract_k [None, Some ''/index.htm'',
             Some ''/data/filedownload.aspx?e=INDEX&sd=20180606&ed=20180606&d=4&k=abc123&o=d&ea=1&p=0'',
             Some ''/data/filedownload.aspx?e=NYSE&k=other'']
           = Inr ''abc123''
       \<and> extract_k [None, Some ''/index.htm'', Some ''/download.aspx?k=abc123'']
           = Inl TokenNotFound"
proof -
  let ?hrefs = "List.map_filter (\<lambda>href. href) url_list"
  have "\<forall>u\<in>set ?hrefs. re_match_filedownload u \<longleftrightarrow> is_download_link u"
    using only_download_links is_download_link_matches by blast
  then have same: "List.find re_match_filedownload ?hrefs = List.find is_download_link ?hrefs"
    by (rule find_same_links)
  have none: "List.find is_download_link ?hrefs = None \<longrightarrow> extract_k url_list = Inl TokenNotFound"
    by (simp add: extract_k_by_search same)
  have first: "\<forall>u before v rest.
             List.find is_download_link ?hrefs = Some u \<and> k_parameter u before v rest
             \<longrightarrow> extract_k url_list = (if v = [] then Inl TokenNotFound else Inr v)
               \<and> (extract_k url_list = Inl TokenNotFound \<longleftrightarrow> v = [])"
  proof (intro allI impI, elim conjE)
    fix u before v rest
    assume u: "List.find is_download_link ?hrefs = Some u" and k: "k_parameter u before v rest"
    from k_parameter_search(1)[OF k] u
    have "extract_k url_list = (if v = [] then Inl TokenNotFound else Inr v)"
      by (simp add: extract_k_by_search same)
    then show "extract_k url_list = (if v = [] then Inl TokenNotFound else Inr v)
               \<and> (extract_k url_list = Inl TokenNotFound \<longleftrightarrow> v = [])"
      by simp
  qed
  have ex1: "extract_k [None, Some ''/index.htm'',
         Some ''/data/filedownload.aspx?e=INDEX&sd=20180606&ed=20180606&d=4&k=abc123&o=d&ea=1&p=0'',
         Some ''/data/filedownload.aspx?e=NYSE&k=other'']
       = Inr ''abc123''"
    by code_simp
  have ex2: "extract_k [None, Some ''/index.htm'', Some ''/download.aspx?k=abc123'']
       = Inl TokenNotFound"
    by code_simp
  from none first ex1 ex2 show ?thesis by (intro conjI)
qed

theorem extract_k_token_witness:
  "List.find is_download_link (List.map_filter (\<lambda>href. href)
        [None, Some ''/index.htm'',
         Some ''/data/filedownload.aspx?e=INDEX&sd=20180606&ed=20180606&d=4&k=abc123&o=d&ea=1&p=0'',
         Some ''/data/filedownload.aspx?e=NYSE&k=other''])
       = Some ''/data/filedownload.aspx?e=INDEX&sd=20180606&ed=20180606&d=4&k=abc123&o=d&ea=1&p=0''
   \<and> k_parameter
         ''/data/filedownload.aspx?e=INDEX&sd=20180606&ed=20180606&d=4&k=abc123&o=d&ea=1&p=0''
         ''e=INDEX&sd=20180606&ed=20180606&d=4&'' ''abc123'' ''&o=d&ea=1&p=0''
   \<and> extract_k
        [None, Some ''/index.htm'',
         Some ''/data/filedownload.aspx?e=INDEX&sd=20180606&ed=20180606&d=4&k=abc123&o=d&ea=1&p=0'',
         Some ''/data/filedownload.aspx?e=NYSE&k=other'']
       = Inr ''abc123''"
proof -
  let ?page = "[None, Some ''/index.htm'',
         Some ''/data/filedownload.aspx?e=INDEX&sd=20180606&ed=20180606&d=4&k=abc123&o=d&ea=1&p=0'',
         Some ''/data/filedownload.aspx?e=NYSE&k=other'']"
  have w: "\<forall>u\<in>set (List.map_filter (\<lambda>href. href) ?page).
      re_match_filedownload u \<longrightarrow> is_download_link u"
    by code_simp
  have f: "List.find is_download_link (List.map_filter (\<lambda>href. href) ?page)
       = Some ''/data/filedownload.aspx?e=INDEX&sd=20180606&ed=20180606&d=4&k=abc123&o=d&ea=1&p=0''"
    by code_simp
  have k: "k_parameter
         ''/data/filedownload.aspx?e=INDEX&sd=20180606&ed=20180606&d=4&k=abc123&o=d&ea=1&p=0''
         ''e=INDEX&sd=20180606&ed=20180606&d=4&'' ''abc123'' ''&o=d&ea=1&p=0''"
    by code_simp
  note first = extract_k_token [OF w, THEN conjunct2, THEN conjunct1, rule_format,
      OF conjI, OF f k, THEN conjunct1]
  from first have e: "extract_k ?page = Inr ''abc123''" by simp
  from f k e show ?thesis by (intro conjI)
qed

subsection \<open>The address of the request\<close>

lemma length_zero_padded: "length (zero_padded w n) = w"
  by (induction w arbitrary: n) auto

lemma digit_char_is_digit: "n < 10 \<Longrightarrow> is_digit (digit_char n)"
  unfolding is_digit_def digit_char_def
  by (rule nth_mem) simp

lemma zero_padded_digits: "\<forall>c\<in>set (zero_padded w n). is_digit c"
  by (induction w arbitrary: n) (auto simp: digit_char_is_digit)

lemma digit_value_digit_char:
  assumes "n < 10"
  shows "digit_value (digit_char n) = n"
proof -
  have "list_all (\<lambda>k. digit_value (digit_char k) = k) [0..<10]"
    by code_simp
  then have "\<forall>k\<in>set [0..<10]. digit_value (digit_char k) = k"
    by (simp only: list_all_iff)
  moreover from assms have "n \<in> set [0..<10]" by simp
  ultimately show ?thesis by blast
qed

lemma decimal_value_snoc:
  "decimal_value (s @ [c]) = 10 * decimal_value s + digit_value c"
  by simp

lemma decimal_value_zero_padded: "decimal_value (zero_padded w n) = n mod 10 ^ w"
proof (induction w arbitrary: n)
  case 0
  then show ?case by simp
next
  case (Suc w)
  have "decimal_value (zero_padded (Suc w) n)
          = 10 * decimal_value (zero_padded w (n div 10)) + digit_value (digit_char (n mod 10))"
    using decimal_value_snoc by simp
  also have "\<dots> = 10 * ((n div 10) mod 10 ^ w) + n mod 10"
    using Suc.IH by (simp add: digit_value_digit_char)
  also have "\<dots> = n mod 10 ^ Suc w"
    by (simp add: mod_mult2_eq)
  finally show ?case .
qed

lemma decimal_digits_four:
  assumes "1000 \<le> n" and "n \<le> 9999"
  shows "decimal_digits n = zero_padded 4 n"
proof -
  have a: "\<not> n < 10" "\<not> n div 10 < 10" "\<not> n div 10 div 10 < 10" "n div 10 div 10 div 10 < 10"
    using assms by simp_all
  have "decimal_digits n = decimal_digits (n div 10) @ [digit_char (n mod 10)]"
    using a(1) by (subst decimal_digits.simps) simp
  also have "decimal_digits (n div 10)
               = decimal_digits (n div 10 div 10) @ [digit_char (n div 10 mod 10)]"
    using a(2) by (subst decimal_digits.simps) simp
  also have "decimal_digits (n div 10 div 10)
               = decimal_digits (n div 10 div 10 div 10) @ [digit_char (n div 10 div 10 mod 10)]"
    using a(3) by (subst decimal_digits.simps) simp
  also have "decimal_digits (n div 10 div 10 div 10) = [digit_char (n div 10 div 10 div 10)]"
    using a(4) by (subst decimal_digits.simps) simp
  finally have "decimal_digits n
      = [digit_char (n div 10 div 10 div 10), digit_char (n div 10 div 10 mod 10),
         digit_char (n div 10 mod 10), digit_char (n mod 10)]"
    by simp
  moreover have "zero_padded 4 n
      = [digit_char (n div 10 div 10 div 10 mod 10), digit_char (n div 10 div 10 mod 10),
         digit_char (n div 10 mod 10), digit_char (n mod 10)]"
  proof -
    have four: "(4::nat) = Suc (Suc (Suc (Suc 0)))" by simp
    show ?thesis unfolding four by simp
  qed
  ultimately show ?thesis using a(4) by simp
qed

lemma strftime_Ymd_four_digit_year:
  assumes "1000 \<le> year d" and "year d \<le> 9999"
  shows "strftime_Ymd d = zero_padded 4 (year d) @ zero_padded 2 (month d) @ zero_padded 2 (day d)"
  using decimal_digits_four[OF assms] by (simp add: strftime_Ymd_def)

lemma strftime_Ymd_fields:
  assumes "valid_calendar_date d" and "1000 \<le> year d"
  shows "length (strftime_Ymd d) = 8"
    and "\<forall>c\<in>set (strftime_Ymd d). is_digit c"
    and "decimal_value (take 4 (strftime_Ymd d)) = year d"
    and "decimal_value (take 2 (drop 4 (strftime_Ymd d))) = month d"
    and "decimal_value (drop 6 (strftime_Ymd d)) = day d"
proof -
  from assms have y: "year d \<le> 9999" by (simp add: valid_calendar_date_def)
  note eq = strftime_Ymd_four_digit_year[OF assms(2) y]
  show "length (strftime_Ymd d) = 8"
    by (simp add: eq length_zero_padded)
  show "\<forall>c\<in>set (strftime_Ymd d). is_digit c"
    using zero_padded_digits by (auto simp: eq)
  have "take 4 (strftime_Ymd d) = zero_padded 4 (year d)"
    by (simp add: eq length_zero_padded)
  then show "decimal_value (take 4 (strftime_Ymd d)) = year d"
    using y decimal_value_zero_padded[of 4 "year d"] by simp
  have "take 2 (drop 4 (strftime_Ymd d)) = zero_padded 2 (month d)"
    by (simp add: eq length_zero_padded)
  then show "decimal_value (take 2 (drop 4 (strftime_Ymd d))) = month d"
    using assms(1) decimal_value_zero_padded[of 2 "month d"]
    by (simp add: valid_calendar_date_def)
  have "drop 6 (strftime_Ymd d) = zero_padded 2 (day d)"
    by (simp add: eq length_zero_padded)
  then show "decimal_value (drop 6 (strftime_Ymd d)) = day d"
    using assms(1) decimal_value_zero_padded[of 2 "day d"]
    by (simp add: valid_calendar_date_def)
qed

lemma url_download_eq:
  "url_download market start_date end_date k =
     Inr (''http://www.eoddata.com/data/filedownload.aspx?e='' @ market
          @ ''&sd='' @ strftime_Ymd start_date @ ''&ed='' @ strftime_Ymd end_date
          @ ''&d=4&k='' @ k @ ''&o=d&ea=1&p=0'')"
  by (simp add: url_download_def url_template_def)


text \<open>
  C8, as the claim states it, fails: the year is written without padding, so a date before
  the year 1000 is encoded in fewer than eight digits (seven for 0999-01-01).
\<close>

theorem url_download_counterexample:
  "valid_calendar_date \<lparr>year = 999, month = 1, day = 1\<rparr>
   \<and> strftime_Ymd \<lparr>year = 999, month = 1, day = 1\<rparr> = ''9990101''
   \<and> length (strftime_Ymd \<lparr>year = 999, month = 1, day = 1\<rparr>) = 7
   \<and> url_download ''NASDAQ'' \<lparr>year = 999, month = 1, day = 1\<rparr>
         \<lparr>year = 999, month = 1, day = 2\<rparr> ''abc123''
       = Inr ''http://www.eoddata.com/data/filedownload.aspx?e=NASDAQ&sd=9990101&ed=9990102&d=4&k=abc123&o=d&ea=1&p=0''"
proof -
  have "valid_calendar_date \<lparr>year = 999, month = 1, day = 1\<rparr>"
    by (simp add: valid_calendar_date_def)
  moreover have s: "strftime_Ymd \<lparr>year = 999, month = 1, day = 1\<rparr> = ''9990101''"
    by code_simp
  moreover have "length (strftime_Ymd \<lparr>year = 999, month = 1, day = 1\<rparr>) = 7"
    unfolding s by simp
  moreover have "url_download ''NASDAQ'' \<lparr>year = 999, month = 1, day = 1\<rparr>
         \<lparr>year = 999, month = 1, day = 2\<rparr> ''abc123''
       = Inr ''http://www.eoddata.com/data/filedownload.aspx?e=NASDAQ&sd=9990101&ed=9990102&d=4&k=abc123&o=d&ea=1&p=0''"
    by code_simp
  ultimately show ?thesis by (intro conjI)
qed

text \<open>
  C8, amended: the address of the request is the base address followed by the market, the
  two dates, the download kind 4, the token as it was extracted, and the flags
  \<^verbatim>\<open>o=d\<close>, \<^verbatim>\<open>ea=1\<close>, \<^verbatim>\<open>p=0\<close>. A date from the year 1000 on is written as eight decimal
  digits, of which the first four read back as the year, the next two as the month and the
  last two as the day. For NASDAQ, 2020-01-01, 2020-01-02 and the token \<^verbatim>\<open>abc123\<close> the
  address carries \<^verbatim>\<open>20200101\<close>, \<^verbatim>\<open>20200102\<close> and \<^verbatim>\<open>abc123\<close>.
\<close>

theorem url_download_encoding:
  assumes "valid_calendar_date start_date" and "valid_calendar_date end_date"
      and "1000 \<le> year start_date" and "1000 \<le> year end_date"
  shows "url_download market start_date end_date k =
           Inr (''http://www.eoddata.com/data/filedownload.aspx?e='' @ market
                @ ''&sd='' @ strftime_Ymd start_date @ ''&ed='' @ strftime_Ymd end_date
                @ ''&d=4&k='' @ k @ ''&o=d&ea=1&p=0'')
       \<and> length (strftime_Ymd start_date) = 8 \<and> length (strftime_Ymd end_date) = 8
       \<and> (\<forall>c\<in>set (strftime_Ymd start_date @ strftime_Ymd end_date). is_digit c)
       \<and> decimal_value (take 4 (strftime_Ymd start_date)) = year start_date
       \<and> decimal_value (take 2 (drop 4 (strftime_Ymd start_date))) = month start_date
       \<and> decimal_value (drop 6 (strftime_Ymd start_date)) = day start_date
       \<and> decimal_value (take 4 (strftime_Ymd end_date)) = year end_date
       \<and> decimal_value (take 2 (drop 4 (strftime_Ymd end_date))) = month end_date
       \<and> decimal_value (drop 6 (strftime_Ymd end_date)) = day end_date
       \<and> (extract_k url_list = Inr k \<longrightarrow>
            download_from_eoddata start_date end_date market url_list
              = url_download market start_date end_date k)
       \<and> url_download ''NASDAQ'' \<lparr>year = 2020, month = 1, day = 1\<rparr>
            \<lparr>year = 2020, month = 1, day = 2\<rparr> ''abc123''
           = Inr ''http://www.eoddata.com/data/filedownload.aspx?e=NASDAQ&sd=20200101&ed=20200102&d=4&k=abc123&o=d&ea=1&p=0''"
proof -
  have digits: "\<forall>c\<in>set (strftime_Ymd start_date @ strftime_Ymd end_date). is_digit c"
    using strftime_Ymd_fields(2)[OF assms(1,3)] strftime_Ymd_fields(2)[OF assms(2,4)] by auto
  have dl: "extract_k url_list = Inr k \<longrightarrow>
            download_from_eoddata start_date end_date market url_list
              = url_download market start_date end_date k"
    by (simp add: download_from_eoddata_def)
  have ex: "url_download ''NASDAQ'' \<lparr>year = 2020, month = 1, day = 1\<rparr>
            \<lparr>year = 2020, month = 1, day = 2\<rparr> ''abc123''
           = Inr ''http://www.eoddata.com/data/filedownload.aspx?e=NASDAQ&sd=20200101&ed=20200102&d=4&k=abc123&o=d&ea=1&p=0''"
    by code_simp
  show ?thesis
    using url_download_eq[of market start_date end_date k] digits dl ex
      strftime_Ymd_fields(1,3,4,5)[OF assms(1,3)] strftime_Ymd_fields(1,3,4,5)[OF assms(2,4)]
    by simp
qed

theorem url_download_encoding_witness:
  "valid_calendar_date \<lparr>year = 2020, month = 1, day = 1\<rparr>
   \<and> valid_calendar_date \<lparr>year = 2020, month = 1, day = 2\<rparr>
   \<and> 1000 \<le> year \<lparr>year = 2020, month = 1, day = 1\<rparr>
   \<and> 1000 \<le> year \<lparr>year = 2020, month = 1, day = 2\<rparr>
   \<and> extract_k [Some ''/data/filedownload.aspx?e=INDEX&sd=20180606&ed=20180606&d=4&k=abc123&o=d&ea=1&p=0'']
       = Inr ''abc123''
   \<and> download_from_eoddata \<lparr>year = 2020, month = 1, day = 1\<rparr>
         \<lparr>year = 2020, month = 1, day = 2\<rparr> ''NASDAQ''
         [Some ''/data/filedownload.aspx?e=INDEX&sd=20180606&ed=20180606&d=4&k=abc123&o=d&ea=1&p=0'']
       = Inr ''http://www.eoddata.com/data/filedownload.aspx?e=NASDAQ&sd=20200101&ed=20200102&d=4&k=abc123&o=d&ea=1&p=0''"
proof -
  have v: "valid_calendar_date \<lparr>year = 2020, month = 1, day = 1\<rparr>"
          "valid_calendar_date \<lparr>year = 2020, month = 1, day = 2\<rparr>"
    by (simp_all add: valid_calendar_date_def)
  have y: "1000 \<le> year \<lparr>year = 2020, month = 1, day = 1\<rparr>"
          "1000 \<le> year \<lparr>year = 2020, month = 1, day = 2\<rparr>"
    by simp_all
  have k: "extract_k [Some ''/data/filedownload.aspx?e=INDEX&sd=20180606&ed=20180606&d=4&k=abc123&o=d&ea=1&p=0'']
       = Inr ''abc123''"
    by code_simp
  note enc = url_download_encoding [OF v y, of "''NASDAQ''" "''abc123''"
      "[Some ''/data/filedownload.aspx?e=INDEX&sd=20180606&ed=20180606&d=4&k=abc123&o=d&ea=1&p=0'']"]
  from enc k have "download_from_eoddata \<lparr>year = 2020, month = 1, day = 1\<rparr>
         \<lparr>year = 2020, month = 1, day = 2\<rparr> ''NASDAQ''
         [Some ''/data/filedownload.aspx?e=INDEX&sd=20180606&ed=20180606&d=4&k=abc123&o=d&ea=1&p=0'']
       = url_download ''NASDAQ'' \<lparr>year = 2020, month = 1, day = 1\<rparr>
            \<lparr>year = 2020, month = 1, day = 2\<rparr> ''abc123''"
    by blast
  moreover from enc have "url_download ''NASDAQ'' \<lparr>year = 2020, month = 1, day = 1\<rparr>
            \<lparr>year = 2020, month = 1, day = 2\<rparr> ''abc123''
           = Inr ''http://www.eoddata.com/data/filedownload.aspx?e=NASDAQ&sd=20200101&ed=20200102&d=4&k=abc123&o=d&ea=1&p=0''"
    by blast
  ultimately have "download_from_eoddata \<lparr>year = 2020, month = 1, day = 1\<rparr>
         \<lparr>year = 2020, month = 1, day = 2\<rparr> ''NASDAQ''
         [Some ''/data/filedownload.aspx?e=INDEX&sd=20180606&ed=20180606&d=4&k=abc123&o=d&ea=1&p=0'']
       = Inr ''http://www.eoddata.com/data/filedownload.aspx?e=NASDAQ&sd=20200101&ed=20200102&d=4&k=abc123&o=d&ea=1&p=0''"
    by (rule trans)
  with v y k show ?thesis by blast
qed

subsection \<open>The browser session\<close>

lemma download_stock_vals_constructor_raises:
  assumes "service_info service = Some entry"
      and "construct_driver_fcn entry download_dir w = (Inl e, w1)"
  shows "download_stock_vals service_info start_date end_date market download_dir service w
           = (Inl UnboundLocalError, w1)"
  using assms by (simp add: download_stock_vals_def try_body_def finally_close_def)

lemma download_stock_vals_closes_driver:
  assumes "service_info service = Some entry"
      and "construct_driver_fcn entry download_dir w = (Inr driver, w1)"
      and "download_data_fcn entry start_date end_date market driver w1 = (r, w2)"
  shows "download_stock_vals service_info start_date end_date market download_dir service w
           = (r, driver_close driver w2)"
  using assms by (simp add: download_stock_vals_def try_body_def finally_close_def)

text \<open>
  C5 does not hold of the code. When the constructor of the driver raises, the local
  variable \<^verbatim>\<open>driver\<close> of \<^verbatim>\<open>download_stock_vals\<close> is unbound, the \<^verbatim>\<open>finally\<close> clause raises
  \<^verbatim>\<open>UnboundLocalError\<close> in place of the error of the constructor, and the browser that
  the constructor had started is not closed. Once the constructor has returned, the
  session is closed whatever the download does.
\<close>

theorem download_stock_vals_login_failure:
  "download_stock_vals service_info_login_fails
       \<lparr>year = 2020, month = 1, day = 1\<rparr> \<lparr>year = 2020, month = 1, day = 2\<rparr>
       ''NASDAQ'' ''/tmp/eod'' ''eoddata'' \<lparr>started = [], closed = []\<rparr>
     = (Inl UnboundLocalError, \<lparr>started = [0], closed = []\<rparr>)"
  by (simp add: download_stock_vals_def try_body_def finally_close_def
      service_info_login_fails_def login_fails_def)

end
